theory Spec2Isabelle
  imports Main "HOL-Library.Word"
begin

section \<open>The DWARF index (src/debugger/dwarfData.go)\<close>

text \<open>
  Addresses are Go \<open>uint64\<close> values, lines are Go \<open>int\<close>/\<open>int64\<close> values (64 bits on the
  target architecture, \<open>line--\<close> wraps), file ids are map keys and never computed with.
  A Go string is a sequence of bytes, as an Isabelle \<open>string\<close> is.
\<close>

type_synonym addr = "64 word"
type_synonym lineno = "64 word"

datatype error =
    NoAddressForLine
  | NoLineForAddress
  | NilDereference
  | IndexOutOfRange
  | SliceOutOfRange
  | TypeAssertion
  | PeekFailed
  | DwarfError

record dwarfEntry =
  address :: addr
  e_file :: int
  line :: lineno
  col :: int
  prologueEnd :: bool
  epilogueBegin :: bool
  isStmt :: bool

record dwarfBaseType =
  bt_name :: string
  byteSize :: int
  encoding :: int

record dwarfParameter =
  p_name :: string
  p_baseType :: dwarfBaseType
  p_locationInstructions :: "8 word list"

record dwarfFunc =
  fn_name :: string
  fn_file :: int
  fn_line :: lineno
  fn_col :: int
  lowPC :: addr
  highPC :: addr
  parameters :: "dwarfParameter list"

text \<open>
  A \<open>*dwarfFunc\<close> is modelled by the slot that holds the object: the number of its module
  in \<open>dwarfData.modules\<close> and its position in that module's \<open>functions\<close>. \<open>parseFunction\<close>
  allocates every object afresh and \<open>getDwarfData\<close> appends it to exactly one module, so
  two slots never hold the same object, and pointer equality is equality of slots. The
  nil pointer is \<open>None\<close>.
\<close>

type_synonym funcRef = "nat \<times> nat"

record dwarfVariable =
  v_name :: string
  v_baseType :: dwarfBaseType
  v_locationInstructions :: "8 word list"
  v_function :: "funcRef option"

record dwarfModule =
  m_name :: string
  startAddress :: addr
  endAddress :: addr
  entries :: "dwarfEntry list"
  files :: "int \<rightharpoonup> string"
  m_functions :: "dwarfFunc list"
  variables :: "dwarfVariable list"

record dwarfMPIData =
  mpi_functions :: "funcRef list"
  mpi_file :: string

record dwarfData =
  modules :: "dwarfModule list"
  types :: "nat \<rightharpoonup> dwarfBaseType"
  mpi :: dwarfMPIData

text \<open>Reading a Go \<open>map[int]string\<close> at a missing key gives the empty string.\<close>

definition filesAt :: "dwarfModule \<Rightarrow> int \<Rightarrow> string" where
  "filesAt m k = (case files m k of None \<Rightarrow> [] | Some p \<Rightarrow> p)"

definition funcAt :: "dwarfData \<Rightarrow> funcRef \<Rightarrow> dwarfFunc option" where
  "funcAt d r =
     (if fst r < length (modules d) \<and> snd r < length (m_functions (modules d ! fst r))
      then Some (m_functions (modules d ! fst r) ! snd r) else None)"

subsection \<open>lookupFunc\<close>

text \<open>\<open>(m *dwarfModule) lookupFunc\<close>: the first function of the module with the name; the
  counter is the position of the head of the list in the module.\<close>

fun moduleLookupFunc :: "dwarfFunc list \<Rightarrow> string \<Rightarrow> nat \<Rightarrow> nat option" where
  "moduleLookupFunc [] functionName i = None"
| "moduleLookupFunc (f # fs) functionName i =
     (if fn_name f = functionName then Some i else moduleLookupFunc fs functionName (Suc i))"

text \<open>\<open>(d *dwarfData) lookupFunc\<close>: the first module in which the module lookup is not nil.\<close>

fun lookupFuncFrom :: "dwarfModule list \<Rightarrow> string \<Rightarrow> nat \<Rightarrow> funcRef option" where
  "lookupFuncFrom [] functionName k = None"
| "lookupFuncFrom (m # ms) functionName k =
     (case moduleLookupFunc (m_functions m) functionName 0 of
        Some i \<Rightarrow> Some (k, i)
      | None \<Rightarrow> lookupFuncFrom ms functionName (Suc k))"

definition lookupFunc :: "dwarfData \<Rightarrow> string \<Rightarrow> funcRef option" where
  "lookupFunc d functionName = lookupFuncFrom (modules d) functionName 0"

subsection \<open>getEntriesForFunction, getSourceFileInfo\<close>

text \<open>Both use the result of \<open>lookupFunc\<close> without a nil check: \<open>module.entries\<close> and
  \<open>module.files\<close> on a nil module panic.\<close>

definition getEntriesForFunction :: "dwarfData \<Rightarrow> string \<Rightarrow> error + dwarfEntry list" where
  "getEntriesForFunction d functionName =
     (case lookupFunc d functionName of
        None \<Rightarrow> Inl NilDereference
      | Some (k, i) \<Rightarrow>
          (let module = modules d ! k; function = m_functions module ! i
           in Inr (filter (\<lambda>entry. lowPC function \<le> address entry \<and> address entry < highPC function)
                     (entries module))))"

definition getSourceFileInfo :: "dwarfData \<Rightarrow> error + string" where
  "getSourceFileInfo d =
     (case lookupFunc d ''main'' of
        None \<Rightarrow> Inl NilDereference
      | Some (k, i) \<Rightarrow>
          (let module = modules d ! k; function = m_functions module ! i
           in Inr (filesAt module (fn_file function))))"

subsection \<open>lineToPC\<close>

text \<open>The innermost loop of \<open>lineToPC\<close>: the first entry of the module with the line, the
  file path and \<open>isStmt\<close>.\<close>

fun scanEntries :: "dwarfModule \<Rightarrow> string \<Rightarrow> lineno \<Rightarrow> dwarfEntry list \<Rightarrow> addr option" where
  "scanEntries m f l [] = None"
| "scanEntries m f l (entry # es) =
     (if line entry = l \<and> filesAt m (e_file entry) = f
      then (if isStmt entry then Some (address entry) else scanEntries m f l es)
      else scanEntries m f l es)"

text \<open>The loop over the values of \<open>module.files\<close> runs the entry scan once for each value
  equal to \<open>file\<close>. The scan does not depend on the value found, so the order in which Go
  visits the map does not matter: the module is scanned when \<open>file\<close> is among the values
  and skipped otherwise.\<close>

definition moduleLineToPC :: "dwarfModule \<Rightarrow> string \<Rightarrow> lineno \<Rightarrow> addr option" where
  "moduleLineToPC m f l = (if f \<in> ran (files m) then scanEntries m f l (entries m) else None)"

fun lineToPCFrom :: "dwarfModule list \<Rightarrow> string \<Rightarrow> lineno \<Rightarrow> addr option" where
  "lineToPCFrom [] f l = None"
| "lineToPCFrom (m # ms) f l =
     (case moduleLineToPC m f l of Some a \<Rightarrow> Some a | None \<Rightarrow> lineToPCFrom ms f l)"

definition lineToPC :: "dwarfData \<Rightarrow> string \<Rightarrow> lineno \<Rightarrow> error + addr" where
  "lineToPC d f l =
     (case lineToPCFrom (modules d) f l of None \<Rightarrow> Inl NoAddressForLine | Some a \<Rightarrow> Inr a)"

subsection \<open>PCToFunc, PCToLine\<close>

fun modulePCToFunc :: "dwarfFunc list \<Rightarrow> addr \<Rightarrow> nat \<Rightarrow> nat option" where
  "modulePCToFunc [] pc i = None"
| "modulePCToFunc (f # fs) pc i =
     (if lowPC f \<le> pc \<and> pc < highPC f then Some i else modulePCToFunc fs pc (Suc i))"

fun PCToFuncFrom :: "dwarfModule list \<Rightarrow> addr \<Rightarrow> nat \<Rightarrow> funcRef option" where
  "PCToFuncFrom [] pc k = None"
| "PCToFuncFrom (m # ms) pc k =
     (case modulePCToFunc (m_functions m) pc 0 of
        Some i \<Rightarrow> Some (k, i)
      | None \<Rightarrow> PCToFuncFrom ms pc (Suc k))"

definition PCToFunc :: "dwarfData \<Rightarrow> addr \<Rightarrow> funcRef option" where
  "PCToFunc d pc = PCToFuncFrom (modules d) pc 0"

fun entryAt :: "dwarfEntry list \<Rightarrow> addr \<Rightarrow> dwarfEntry option" where
  "entryAt [] pc = None"
| "entryAt (entry # es) pc = (if address entry = pc then Some entry else entryAt es pc)"

fun PCToLineFrom :: "dwarfModule list \<Rightarrow> addr \<Rightarrow> (lineno \<times> string) option" where
  "PCToLineFrom [] pc = None"
| "PCToLineFrom (m # ms) pc =
     (if startAddress m \<le> pc \<and> pc \<le> endAddress m
      then (case entryAt (entries m) pc of
              Some entry \<Rightarrow> Some (line entry, filesAt m (e_file entry))
            | None \<Rightarrow> PCToLineFrom ms pc)
      else PCToLineFrom ms pc)"

definition PCToLine :: "dwarfData \<Rightarrow> addr \<Rightarrow> error + (lineno \<times> string \<times> funcRef option)" where
  "PCToLine d pc =
     (case PCToLineFrom (modules d) pc of
        None \<Rightarrow> Inl NoLineForAddress
      | Some (l, f) \<Rightarrow> Inr (l, f, PCToFunc d pc))"

subsection \<open>The index as one sequence of entries\<close>

text \<open>The entries of an index in scan order (modules in index order, the entries of each
  module in order), each with its module; and what \<open>lineToPC\<close> looks for in an entry.\<close>

definition indexEntries :: "dwarfModule list \<Rightarrow> (dwarfModule \<times> dwarfEntry) list" where
  "indexEntries ms = concat (map (\<lambda>m. map (Pair m) (entries m)) ms)"

definition stmtEntryFor :: "string \<Rightarrow> lineno \<Rightarrow> dwarfModule \<times> dwarfEntry \<Rightarrow> bool" where
  "stmtEntryFor f l me = (filesAt (fst me) (e_file (snd me)) = f \<and> line (snd me) = l \<and> isStmt (snd me))"



section \<open>Example indexes\<close>

definition exEntry :: "addr \<Rightarrow> int \<Rightarrow> lineno \<Rightarrow> bool \<Rightarrow> dwarfEntry" where
  "exEntry a k l s =
     \<lparr>address = a, e_file = k, line = l, col = 0, prologueEnd = False, epilogueBegin = False,
      isStmt = s\<rparr>"

definition exModule :: "addr \<Rightarrow> addr \<Rightarrow> (int \<rightharpoonup> string) \<Rightarrow> dwarfEntry list \<Rightarrow> dwarfFunc list \<Rightarrow> dwarfModule" where
  "exModule lo hi fs es fns =
     \<lparr>m_name = ''cu'', startAddress = lo, endAddress = hi, entries = es, files = fs,
      m_functions = fns, variables = []\<rparr>"

definition exIndex :: "dwarfModule list \<Rightarrow> dwarfData" where
  "exIndex ms = \<lparr>modules = ms, types = Map.empty, mpi = \<lparr>mpi_functions = [], mpi_file = []\<rparr>\<rparr>"

definition twoLineIndex :: dwarfData where
  "twoLineIndex =
     exIndex [exModule 0 0x100 [1 \<mapsto> ''a.c'']
                [exEntry 0x10 1 5 False, exEntry 0x20 1 5 True, exEntry 0x30 1 6 True] []]"


definition pcModule :: "addr \<Rightarrow> dwarfModule \<Rightarrow> bool" where
  "pcModule pc m =
     (startAddress m \<le> pc \<and> pc \<le> endAddress m \<and> list_ex (\<lambda>e. address e = pc) (entries m))"

definition sameAddressIndex :: dwarfData where
  "sameAddressIndex =
     exIndex [exModule 0 0x100 [1 \<mapsto> ''a.c'']
                [exEntry 0x10 1 5 True, exEntry 0x10 1 6 True] []]"

definition exFunc :: "string \<Rightarrow> int \<Rightarrow> addr \<Rightarrow> addr \<Rightarrow> dwarfFunc" where
  "exFunc n k lo hi =
     \<lparr>fn_name = n, fn_file = k, fn_line = 0, fn_col = 0, lowPC = lo, highPC = hi, parameters = []\<rparr>"

definition mainIndex :: dwarfData where
  "mainIndex =
     exIndex [exModule 0x1000 0x1100 [1 \<mapsto> ''hello.c'']
                [exEntry 0x1000 1 3 True, exEntry 0x1008 1 4 True, exEntry 0x1040 1 9 True]
                [exFunc ''helper'' 1 0x1000 0x1040, exFunc ''main'' 1 0x1040 0x1100]]"

definition hasFunc :: "dwarfData \<Rightarrow> string \<Rightarrow> bool" where
  "hasFunc d functionName =
     list_ex (\<lambda>m. list_ex (\<lambda>f. fn_name f = functionName) (m_functions m)) (modules d)"

section \<open>The orchestrator's node registry (src/orchestrator/nodeReporter.go)\<close>

record node =
  node_id :: int
  node_pid :: int

text \<open>Of a \<open>command.Command\<close> the reporter reads \<open>NodeId\<close> and \<open>Result.Exited\<close>.\<close>

record command =
  NodeId :: int
  Exited :: bool

text \<open>
  The package-level \<open>registeredNodes\<close>, a Go map from node id to node, and whether the
  delayed \<open>os.Exit\<close> has been started. \<open>len\<close> of a Go map is the number of its keys.
\<close>

record orchestrator =
  registeredNodes :: "int \<rightharpoonup> node"
  exitScheduled :: bool

definition emptyRegistry :: orchestrator where
  "emptyRegistry = \<lparr>registeredNodes = Map.empty, exitScheduled = False\<rparr>"

text \<open>\<open>Register\<close>: returns the new state and the reply.\<close>

definition Register :: "orchestrator \<Rightarrow> int \<Rightarrow> orchestrator \<times> int" where
  "Register s pid =
     (let n = \<lparr>node_id = int (card (dom (registeredNodes s))), node_pid = pid\<rparr>
      in (s\<lparr>registeredNodes := (registeredNodes s)(node_id n \<mapsto> n)\<rparr>, node_id n))"

definition ReportCommandResult :: "orchestrator \<Rightarrow> command \<Rightarrow> orchestrator" where
  "ReportCommandResult s cmd =
     (if Exited cmd
      then (let r = (registeredNodes s)(NodeId cmd := None)
            in s\<lparr>registeredNodes := r, exitScheduled := (exitScheduled s \<or> card (dom r) = 0)\<rparr>)
      else s)"

datatype rpc = CallRegister int | CallReport command

text \<open>A sequence of calls, served in order; the ids replied by \<open>Register\<close>, oldest first.\<close>

fun serve :: "orchestrator \<Rightarrow> rpc list \<Rightarrow> orchestrator \<times> int list" where
  "serve s [] = (s, [])"
| "serve s (CallRegister pid # cs) =
     (let (s', i) = Register s pid; (s'', ids) = serve s' cs in (s'', i # ids))"
| "serve s (CallReport cmd # cs) = serve (ReportCommandResult s cmd) cs"

definition reuseCalls :: "rpc list" where
  "reuseCalls =
     [CallRegister 100, CallRegister 101, CallReport \<lparr>NodeId = 0, Exited = True\<rparr>,
      CallRegister 102]"

section \<open>Index construction (src/debugger/dwarfData.go)\<close>

subsection \<open>What the code reads of Go's \<open>debug/dwarf\<close>\<close>

text \<open>
  A \<open>dwarf.Entry\<close> has an offset, a tag and a list of fields, each an attribute with a
  value of dynamic type. The tags and attributes named in the code are constructors of
  their own; the others are \<open>TagOther\<close> and \<open>AttrOther\<close>. \<open>VNil\<close> is the nil interface, which
  \<open>Entry.Val\<close> returns for an attribute the entry does not have.
\<close>

datatype tag =
  TagBaseType | TagCompileUnit | TagSubprogram | TagFormalParameter | TagVariable | TagOther

datatype attr =
    AttrName | AttrByteSize | AttrEncoding | AttrType | AttrLocation
  | AttrDeclFile | AttrDeclLine | AttrDeclColumn | AttrFrameBase | AttrLanguage
  | AttrProducer | AttrOther

datatype val = VNil | VString string | VInt64 "64 word" | VOffset nat | VBytes "8 word list" | VOther

text \<open>A \<open>dwarf.LineEntry\<close>; of its \<open>File\<close>, a pointer that may be nil, the code reads the
  name.\<close>

record lineEntry =
  le_Address :: addr
  le_File :: "string option"
  le_Line :: lineno
  le_Column :: int
  le_IsStmt :: bool
  le_PrologueEnd :: bool
  le_EpilogueBegin :: bool

text \<open>A \<open>dwarf.LineReader\<close>: the file table that \<open>Files\<close> returns (a nil pointer is \<open>None\<close>,
  else the file's name) and the rows that \<open>Next\<close> yields before \<open>io.EOF\<close>.\<close>

record lineReader =
  lr_Files :: "string option list"
  lr_rows :: "lineEntry list"

text \<open>An entry together with what \<open>dwarf.Data\<close> answers for it: \<open>Ranges\<close> (an error or the
  list of ranges) and \<open>LineReader\<close> (an error, or a reader that is nil when the unit has
  no line table).\<close>

record rawEntry =
  Offset :: nat
  Tag :: tag
  Field :: "(attr \<times> val) list"
  Ranges :: "error + (addr \<times> addr) list"
  LineReader :: "error + lineReader option"

definition bindE :: "error + 'a \<Rightarrow> ('a \<Rightarrow> error + 'b) \<Rightarrow> error + 'b" where
  "bindE r f = (case r of Inl e \<Rightarrow> Inl e | Inr x \<Rightarrow> f x)"

text \<open>\<open>Entry.Val\<close>: the value of the first field with the attribute.\<close>

fun Val :: "(attr \<times> val) list \<Rightarrow> attr \<Rightarrow> val" where
  "Val [] a = VNil"
| "Val ((b, v) # fs) a = (if b = a then v else Val fs a)"

text \<open>The type assertions \<open>.(string)\<close>, \<open>.(int64)\<close>, \<open>.(dwarf.Offset)\<close>, \<open>.([]byte)\<close>: a value
  of another dynamic type, the nil interface among them, panics.\<close>

definition asString :: "val \<Rightarrow> error + string" where
  "asString v = (case v of VString s \<Rightarrow> Inr s | _ \<Rightarrow> Inl TypeAssertion)"

definition asInt64 :: "val \<Rightarrow> error + 64 word" where
  "asInt64 v = (case v of VInt64 w \<Rightarrow> Inr w | _ \<Rightarrow> Inl TypeAssertion)"

definition asOffset :: "val \<Rightarrow> error + nat" where
  "asOffset v = (case v of VOffset n \<Rightarrow> Inr n | _ \<Rightarrow> Inl TypeAssertion)"

definition asBytes :: "val \<Rightarrow> error + 8 word list" where
  "asBytes v = (case v of VBytes bs \<Rightarrow> Inr bs | _ \<Rightarrow> Inl TypeAssertion)"

subsection \<open>parseModule\<close>

text \<open>The loop over the fields of a compile unit: the name is that of the last
  \<open>AttrName\<close> field.\<close>

fun moduleFields :: "(attr \<times> val) list \<Rightarrow> string \<Rightarrow> error + string" where
  "moduleFields [] n = Inr n"
| "moduleFields ((a, v) # fs) n =
     (if a = AttrName then bindE (asString v) (\<lambda>s. moduleFields fs s) else moduleFields fs n)"

text \<open>The loop over \<open>lineReader.Files()\<close>, filling \<open>module.files\<close> and
  \<open>moduleFileIndexMap\<close>; the counter is the index of the head of the list.\<close>

fun fileTable ::
  "string option list \<Rightarrow> nat \<Rightarrow> (int \<rightharpoonup> string) \<times> (string \<rightharpoonup> int) \<Rightarrow>
   (int \<rightharpoonup> string) \<times> (string \<rightharpoonup> int)" where
  "fileTable [] fileIndex acc = acc"
| "fileTable (None # fs) fileIndex acc = fileTable fs (Suc fileIndex) acc"
| "fileTable (Some n # fs) fileIndex (mfiles, moduleFileIndexMap) =
     fileTable fs (Suc fileIndex)
       (mfiles(int fileIndex \<mapsto> n), moduleFileIndexMap(n \<mapsto> int fileIndex))"

text \<open>The loop over the rows: \<open>le.File.Name\<close> on a nil \<open>File\<close> panics; a name missing from
  \<open>moduleFileIndexMap\<close> reads as 0; the line is decremented.\<close>

fun lineRows :: "(string \<rightharpoonup> int) \<Rightarrow> lineEntry list \<Rightarrow> error + dwarfEntry list" where
  "lineRows moduleFileIndexMap [] = Inr []"
| "lineRows moduleFileIndexMap (le # les) =
     (case le_File le of
        None \<Rightarrow> Inl NilDereference
      | Some n \<Rightarrow>
          bindE (lineRows moduleFileIndexMap les)
            (\<lambda>es. Inr (\<lparr>address = le_Address le,
                         e_file = (case moduleFileIndexMap n of None \<Rightarrow> 0 | Some k \<Rightarrow> k),
                         line = le_Line le - 1,
                         col = le_Column le,
                         prologueEnd = le_PrologueEnd le,
                         epilogueBegin = le_EpilogueBegin le,
                         isStmt = le_IsStmt le\<rparr> # es)))"

definition parseModule :: "rawEntry \<Rightarrow> error + dwarfModule" where
  "parseModule entry =
     bindE (moduleFields (Field entry) []) (\<lambda>n.
     bindE (Ranges entry) (\<lambda>ranges.
       case ranges of
         [] \<Rightarrow> Inl IndexOutOfRange
       | r # _ \<Rightarrow>
           bindE (LineReader entry) (\<lambda>reader.
             case reader of
               None \<Rightarrow> Inl NilDereference
             | Some lr \<Rightarrow>
                 (let (mfiles, moduleFileIndexMap) = fileTable (lr_Files lr) 0 (Map.empty, Map.empty)
                  in bindE (lineRows moduleFileIndexMap (lr_rows lr)) (\<lambda>dEntries.
                       Inr \<lparr>m_name = n, startAddress = fst r, endAddress = snd r,
                            entries = dEntries, files = mfiles, m_functions = [],
                            variables = []\<rparr>)))))"

subsection \<open>parseFunction, parseFunctionParameter\<close>

fun functionFields :: "(attr \<times> val) list \<Rightarrow> dwarfFunc \<Rightarrow> error + dwarfFunc" where
  "functionFields [] function = Inr function"
| "functionFields ((a, v) # fs) function =
     (if a = AttrName then
        bindE (asString v) (\<lambda>s. functionFields fs (function\<lparr>fn_name := s\<rparr>))
      else if a = AttrDeclFile then
        bindE (asInt64 v) (\<lambda>w. functionFields fs (function\<lparr>fn_file := sint w\<rparr>))
      else if a = AttrDeclLine then
        bindE (asInt64 v) (\<lambda>w. functionFields fs (function\<lparr>fn_line := w - 1\<rparr>))
      else if a = AttrDeclColumn then
        bindE (asInt64 v) (\<lambda>w. functionFields fs (function\<lparr>fn_col := sint w\<rparr>))
      else functionFields fs function)"

definition zeroFunc :: dwarfFunc where
  "zeroFunc =
     \<lparr>fn_name = [], fn_file = 0, fn_line = 0, fn_col = 0, lowPC = 0, highPC = 0, parameters = []\<rparr>"

definition parseFunction :: "rawEntry \<Rightarrow> error + dwarfFunc" where
  "parseFunction entry =
     bindE (functionFields (Field entry) zeroFunc) (\<lambda>function.
     bindE (Ranges entry) (\<lambda>ranges.
       case ranges of
         [] \<Rightarrow> Inl IndexOutOfRange
       | r # _ \<Rightarrow> Inr (function\<lparr>lowPC := fst r, highPC := snd r, parameters := []\<rparr>)))"

definition unknownType :: dwarfBaseType where
  "unknownType = \<lparr>bt_name = ''unknown type'', byteSize = 0, encoding = 0\<rparr>"

definition typeAt :: "(nat \<rightharpoonup> dwarfBaseType) \<Rightarrow> nat \<Rightarrow> dwarfBaseType" where
  "typeAt ts off = (case ts off of None \<Rightarrow> unknownType | Some t \<Rightarrow> t)"

definition parseFunctionParameter ::
  "rawEntry \<Rightarrow> (nat \<rightharpoonup> dwarfBaseType) \<Rightarrow> error + dwarfParameter" where
  "parseFunctionParameter entry ts =
     bindE (asOffset (Val (Field entry) AttrType)) (\<lambda>off.
     bindE (asString (Val (Field entry) AttrName)) (\<lambda>n.
     bindE (asBytes (Val (Field entry) AttrLocation)) (\<lambda>loc.
       Inr \<lparr>p_name = n, p_baseType = typeAt ts off, p_locationInstructions = loc\<rparr>)))"

subsection \<open>The loop of getDwarfData\<close>

text \<open>The index under construction, the current module (its number in \<open>data.modules\<close>)
  and the current function (its slot); both cursors start as nil.\<close>

record parseState =
  data :: dwarfData
  currentModule :: "nat option"
  currentFunction :: "funcRef option"

definition updModule :: "dwarfData \<Rightarrow> nat \<Rightarrow> (dwarfModule \<Rightarrow> dwarfModule) \<Rightarrow> dwarfData" where
  "updModule d k g = d\<lparr>modules := (modules d)[k := g (modules d ! k)]\<rparr>"

definition updFunc :: "dwarfData \<Rightarrow> funcRef \<Rightarrow> (dwarfFunc \<Rightarrow> dwarfFunc) \<Rightarrow> dwarfData" where
  "updFunc d r g =
     updModule d (fst r) (\<lambda>m. m\<lparr>m_functions := (m_functions m)[snd r := g (m_functions m ! snd r)]\<rparr>)"

definition parseEntry :: "parseState \<Rightarrow> rawEntry \<Rightarrow> error + parseState" where
  "parseEntry st entry =
     (case Tag entry of
        TagBaseType \<Rightarrow>
          bindE (asString (Val (Field entry) AttrName)) (\<lambda>n.
          bindE (asInt64 (Val (Field entry) AttrByteSize)) (\<lambda>bs.
          bindE (asInt64 (Val (Field entry) AttrEncoding)) (\<lambda>enc.
            Inr (st\<lparr>data := (data st)\<lparr>types := (types (data st))
                  (Offset entry \<mapsto> \<lparr>bt_name = n, byteSize = sint bs, encoding = sint enc\<rparr>)\<rparr>\<rparr>))))
      | TagCompileUnit \<Rightarrow>
          bindE (parseModule entry) (\<lambda>m.
            Inr (st\<lparr>data := (data st)\<lparr>modules := modules (data st) @ [m]\<rparr>,
                    currentModule := Some (length (modules (data st))),
                    currentFunction := None\<rparr>))
      | TagSubprogram \<Rightarrow>
          bindE (parseFunction entry) (\<lambda>function.
            case currentModule st of
              None \<Rightarrow> Inl NilDereference
            | Some k \<Rightarrow>
                Inr (st\<lparr>data := updModule (data st) k
                                 (\<lambda>m. m\<lparr>m_functions := m_functions m @ [function]\<rparr>),
                        currentFunction := Some (k, length (m_functions (modules (data st) ! k)))\<rparr>))
      | TagFormalParameter \<Rightarrow>
          bindE (parseFunctionParameter entry (types (data st))) (\<lambda>parameter.
            case currentFunction st of
              None \<Rightarrow> Inl NilDereference
            | Some r \<Rightarrow>
                Inr (st\<lparr>data := updFunc (data st) r
                                 (\<lambda>f. f\<lparr>parameters := parameters f @ [parameter]\<rparr>)\<rparr>))
      | TagVariable \<Rightarrow>
          bindE (asOffset (Val (Field entry) AttrType)) (\<lambda>off.
          bindE (asString (Val (Field entry) AttrName)) (\<lambda>n.
          bindE (if Val (Field entry) AttrLocation = VNil then Inr []
                 else asBytes (Val (Field entry) AttrLocation)) (\<lambda>loc.
            case currentModule st of
              None \<Rightarrow> Inl NilDereference
            | Some k \<Rightarrow>
                Inr (st\<lparr>data := updModule (data st) k
                       (\<lambda>m. m\<lparr>variables := variables m @
                          [\<lparr>v_name = n, v_baseType = typeAt (types (data st)) off,
                            v_locationInstructions = loc,
                            v_function = currentFunction st\<rparr>]\<rparr>)\<rparr>))))
      | TagOther \<Rightarrow> Inr st)"

fun parseEntries :: "parseState \<Rightarrow> rawEntry list \<Rightarrow> error + parseState" where
  "parseEntries st [] = Inr st"
| "parseEntries st (entry # es) = bindE (parseEntry st entry) (\<lambda>st'. parseEntries st' es)"

definition initialState :: parseState where
  "initialState =
     \<lparr>data = \<lparr>modules = [], types = Map.empty, mpi = \<lparr>mpi_functions = [], mpi_file = []\<rparr>\<rparr>,
      currentModule = None, currentFunction = None\<rparr>"

subsection \<open>resolveMPIDebugInfo\<close>

text \<open>Modelled from the spec: the constant \<open>MPI_FUNCS.SIGNATURE\<close> is declared outside the
  files at hand; section 4.3 of the specification and \<open>mpi_wrap.h\<close> name the signature
  function \<open>_MPI_WRAPPER_INCLUDE\<close>.\<close>

definition MPI_FUNCS_SIGNATURE :: string where
  "MPI_FUNCS_SIGNATURE = ''_MPI_WRAPPER_INCLUDE''"

text \<open>
  The loop over \<open>module.functions\<close>, for the module numbered \<open>k\<close> whose signature function
  is in slot \<open>si\<close> and has file id \<open>sigFile\<close>; the counter is the slot of the head of the
  list. A function with that file id in another slot loses the first byte of its name
  (\<open>name[1:]\<close>, which panics on the empty string) and is appended to the result. The loop
  returns the functions as it leaves them and the pointers collected.
\<close>

fun stripWrappers ::
  "int \<Rightarrow> nat \<Rightarrow> nat \<Rightarrow> dwarfFunc list \<Rightarrow> nat \<Rightarrow> error + (dwarfFunc list \<times> funcRef list)" where
  "stripWrappers sigFile si k [] i = Inr ([], [])"
| "stripWrappers sigFile si k (function # fs) i =
     (if fn_file function = sigFile \<and> i \<noteq> si
      then (if fn_name function = [] then Inl SliceOutOfRange
            else bindE (stripWrappers sigFile si k fs (Suc i)) (\<lambda>(fs', refs).
                   Inr (function\<lparr>fn_name := tl (fn_name function)\<rparr> # fs', (k, i) # refs)))
      else bindE (stripWrappers sigFile si k fs (Suc i)) (\<lambda>(fs', refs).
             Inr (function # fs', refs)))"

text \<open>\<open>resolveMPIDebugInfo\<close> changes the names in place and returns the MPI data: the
  model returns the index after the change and the MPI data. A nil result of
  \<open>lookupFunc\<close> panics at \<open>module.functions\<close>.\<close>

definition resolveMPIDebugInfo :: "dwarfData \<Rightarrow> error + (dwarfData \<times> dwarfMPIData)" where
  "resolveMPIDebugInfo d =
     (case lookupFunc d MPI_FUNCS_SIGNATURE of
        None \<Rightarrow> Inl NilDereference
      | Some (k, si) \<Rightarrow>
          (let module = modules d ! k; sigFunc = m_functions module ! si
           in bindE (stripWrappers (fn_file sigFunc) si k (m_functions module) 0) (\<lambda>(fs', refs).
                Inr (updModule d k (\<lambda>m. m\<lparr>m_functions := fs'\<rparr>),
                     \<lparr>mpi_functions = refs, mpi_file = filesAt module (fn_file sigFunc)\<rparr>))))"

definition getDwarfData :: "rawEntry list \<Rightarrow> error + dwarfData" where
  "getDwarfData raw =
     bindE (parseEntries initialState raw) (\<lambda>st.
     bindE (resolveMPIDebugInfo (data st)) (\<lambda>(d, m). Inr (d\<lparr>mpi := m\<rparr>)))"

text \<open>The slots of the signature function's module that \<open>resolveMPIDebugInfo\<close> selects:
  same file id as the signature function, another slot.\<close>

definition wrapperSlot :: "int \<Rightarrow> nat \<Rightarrow> nat \<times> dwarfFunc \<Rightarrow> bool" where
  "wrapperSlot sigFile si jf = (fn_file (snd jf) = sigFile \<and> fst jf \<noteq> si)"

definition stripName :: "dwarfFunc \<Rightarrow> dwarfFunc" where
  "stripName f = f\<lparr>fn_name := tl (fn_name f)\<rparr>"

section \<open>Example debug information\<close>

definition rawRow :: "addr \<Rightarrow> string \<Rightarrow> lineno \<Rightarrow> bool \<Rightarrow> lineEntry" where
  "rawRow a f l s =
     \<lparr>le_Address = a, le_File = Some f, le_Line = l, le_Column = 0, le_IsStmt = s,
      le_PrologueEnd = False, le_EpilogueBegin = False\<rparr>"

definition rawUnit ::
  "string \<Rightarrow> (addr \<times> addr) list \<Rightarrow> string option list \<Rightarrow> lineEntry list \<Rightarrow> rawEntry" where
  "rawUnit n rs fs rows =
     \<lparr>Offset = 0, Tag = TagCompileUnit, Field = [(AttrName, VString n)], Ranges = Inr rs,
      LineReader = Inr (Some \<lparr>lr_Files = fs, lr_rows = rows\<rparr>)\<rparr>"

definition rawSubprogram :: "string \<Rightarrow> 64 word \<Rightarrow> 64 word \<Rightarrow> addr \<Rightarrow> addr \<Rightarrow> rawEntry" where
  "rawSubprogram n f l lo hi =
     \<lparr>Offset = 0, Tag = TagSubprogram,
      Field = [(AttrName, VString n), (AttrDeclFile, VInt64 f), (AttrDeclLine, VInt64 l)],
      Ranges = Inr [(lo, hi)], LineReader = Inr None\<rparr>"

definition namedModule ::
  "string \<Rightarrow> addr \<Rightarrow> addr \<Rightarrow> (int \<rightharpoonup> string) \<Rightarrow> dwarfEntry list \<Rightarrow> dwarfFunc list \<Rightarrow> dwarfModule" where
  "namedModule n lo hi fs es fns = (exModule lo hi fs es fns)\<lparr>m_name := n\<rparr>"

definition declFunc :: "string \<Rightarrow> int \<Rightarrow> lineno \<Rightarrow> addr \<Rightarrow> addr \<Rightarrow> dwarfFunc" where
  "declFunc n k l lo hi = (exFunc n k lo hi)\<lparr>fn_line := l\<rparr>"

text \<open>A program of one compile unit that includes the wrapper header.\<close>

definition helloInput :: "rawEntry list" where
  "helloInput =
     [rawUnit ''hello.c'' [(0x1000, 0x1100)] [None, Some ''hello.c'', Some ''mpi_wrap.h'']
        [rawRow 0x1000 ''mpi_wrap.h'' 4 True, rawRow 0x1010 ''mpi_wrap.h'' 40 True,
         rawRow 0x1040 ''hello.c'' 6 True, rawRow 0x1048 ''hello.c'' 7 True],
      rawSubprogram ''_MPI_WRAPPER_INCLUDE'' 2 4 0x1000 0x1010,
      rawSubprogram ''_MPI_Send'' 2 40 0x1010 0x1040,
      rawSubprogram ''main'' 1 6 0x1040 0x1100]"

text \<open>The index of \<open>helloInput\<close> when the loop of \<open>getDwarfData\<close> ends, and when
  \<open>getDwarfData\<close> returns.\<close>

definition helloParsed :: dwarfData where
  "helloParsed =
     exIndex [namedModule ''hello.c'' 0x1000 0x1100 [1 \<mapsto> ''hello.c'', 2 \<mapsto> ''mpi_wrap.h'']
                [exEntry 0x1000 2 3 True, exEntry 0x1010 2 39 True,
                 exEntry 0x1040 1 5 True, exEntry 0x1048 1 6 True]
                [declFunc ''_MPI_WRAPPER_INCLUDE'' 2 3 0x1000 0x1010,
                 declFunc ''_MPI_Send'' 2 39 0x1010 0x1040,
                 declFunc ''main'' 1 5 0x1040 0x1100]]"

definition helloIndex :: dwarfData where
  "helloIndex =
     \<lparr>modules =
        [namedModule ''hello.c'' 0x1000 0x1100 [1 \<mapsto> ''hello.c'', 2 \<mapsto> ''mpi_wrap.h'']
           [exEntry 0x1000 2 3 True, exEntry 0x1010 2 39 True,
            exEntry 0x1040 1 5 True, exEntry 0x1048 1 6 True]
           [declFunc ''_MPI_WRAPPER_INCLUDE'' 2 3 0x1000 0x1010,
            declFunc ''MPI_Send'' 2 39 0x1010 0x1040,
            declFunc ''main'' 1 5 0x1040 0x1100]],
      types = Map.empty,
      mpi = \<lparr>mpi_functions = [(0, 1)], mpi_file = ''mpi_wrap.h''\<rparr>\<rparr>"

text \<open>A program of two compile units that both include the wrapper header.\<close>

definition twoUnitInput :: "rawEntry list" where
  "twoUnitInput =
     [rawUnit ''a.c'' [(0x1000, 0x1100)] [None, Some ''a.c'', Some ''mpi_wrap.h''] [],
      rawSubprogram ''_MPI_WRAPPER_INCLUDE'' 2 4 0x1000 0x1010,
      rawSubprogram ''_MPI_Send'' 2 40 0x1010 0x1040,
      rawSubprogram ''main'' 1 6 0x1040 0x1100,
      rawUnit ''b.c'' [(0x2000, 0x2100)] [None, Some ''b.c'', Some ''mpi_wrap.h''] [],
      rawSubprogram ''_MPI_WRAPPER_INCLUDE'' 2 4 0x2000 0x2010,
      rawSubprogram ''_MPI_Send'' 2 40 0x2010 0x2040,
      rawSubprogram ''helper'' 1 3 0x2040 0x2100]"

definition twoUnitIndex :: dwarfData where
  "twoUnitIndex =
     \<lparr>modules =
        [namedModule ''a.c'' 0x1000 0x1100 [1 \<mapsto> ''a.c'', 2 \<mapsto> ''mpi_wrap.h''] []
           [declFunc ''_MPI_WRAPPER_INCLUDE'' 2 3 0x1000 0x1010,
            declFunc ''MPI_Send'' 2 39 0x1010 0x1040,
            declFunc ''main'' 1 5 0x1040 0x1100],
         namedModule ''b.c'' 0x2000 0x2100 [1 \<mapsto> ''b.c'', 2 \<mapsto> ''mpi_wrap.h''] []
           [declFunc ''_MPI_WRAPPER_INCLUDE'' 2 3 0x2000 0x2010,
            declFunc ''_MPI_Send'' 2 39 0x2010 0x2040,
            declFunc ''helper'' 1 2 0x2040 0x2100]],
      types = Map.empty,
      mpi = \<lparr>mpi_functions = [(0, 1)], mpi_file = ''mpi_wrap.h''\<rparr>\<rparr>"

text \<open>A program whose first compile unit defines a function named \<open>MPI_Send\<close> of its
  own, before the unit that includes the wrapper header.\<close>

definition shadowInput :: "rawEntry list" where
  "shadowInput =
     [rawUnit ''send.c'' [(0x1000, 0x1100)] [None, Some ''send.c''] [],
      rawSubprogram ''MPI_Send'' 1 10 0x1000 0x1100,
      rawUnit ''hello.c'' [(0x2000, 0x2100)] [None, Some ''hello.c'', Some ''mpi_wrap.h''] [],
      rawSubprogram ''_MPI_WRAPPER_INCLUDE'' 2 4 0x2000 0x2010,
      rawSubprogram ''_MPI_Send'' 2 40 0x2010 0x2040,
      rawSubprogram ''main'' 1 6 0x2040 0x2100]"

definition shadowIndex :: dwarfData where
  "shadowIndex =
     \<lparr>modules =
        [namedModule ''send.c'' 0x1000 0x1100 [1 \<mapsto> ''send.c''] []
           [declFunc ''MPI_Send'' 1 9 0x1000 0x1100],
         namedModule ''hello.c'' 0x2000 0x2100 [1 \<mapsto> ''hello.c'', 2 \<mapsto> ''mpi_wrap.h''] []
           [declFunc ''_MPI_WRAPPER_INCLUDE'' 2 3 0x2000 0x2010,
            declFunc ''MPI_Send'' 2 39 0x2010 0x2040,
            declFunc ''main'' 1 5 0x2040 0x2100]],
      types = Map.empty,
      mpi = \<lparr>mpi_functions = [(1, 1)], mpi_file = ''mpi_wrap.h''\<rparr>\<rparr>"

subsection \<open>The raw values that construction reads\<close>

definition isUnit :: "rawEntry \<Rightarrow> bool" where
  "isUnit e = (Tag e = TagCompileUnit)"

definition isSubprogram :: "rawEntry \<Rightarrow> bool" where
  "isSubprogram e = (Tag e = TagSubprogram)"

text \<open>The rows of a compile unit's line table, and the first of an entry's ranges.\<close>

definition rawRows :: "rawEntry \<Rightarrow> lineEntry list" where
  "rawRows e = (case LineReader e of Inr (Some lr) \<Rightarrow> lr_rows lr | _ \<Rightarrow> [])"

definition rawFiles :: "rawEntry \<Rightarrow> string option list" where
  "rawFiles e = (case LineReader e of Inr (Some lr) \<Rightarrow> lr_Files lr | _ \<Rightarrow> [])"

definition firstRange :: "rawEntry \<Rightarrow> (addr \<times> addr) option" where
  "firstRange e = (case Ranges e of Inr (r # _) \<Rightarrow> Some r | _ \<Rightarrow> None)"

text \<open>The raw declaration line of a subprogram: the value of its last \<open>AttrDeclLine\<close>
  field, if it has one.\<close>

fun rawDeclLine :: "(attr \<times> val) list \<Rightarrow> 64 word option" where
  "rawDeclLine [] = None"
| "rawDeclLine ((a, v) # fs) =
     (case rawDeclLine fs of
        Some w \<Rightarrow> Some w
      | None \<Rightarrow> (if a = AttrDeclLine then (case v of VInt64 w \<Rightarrow> Some w | _ \<Rightarrow> None) else None))"

text \<open>A function's stored line against the raw line of its subprogram entry; a
  subprogram without the attribute leaves the line at 0.\<close>

definition declLineAdjusted :: "dwarfFunc \<Rightarrow> rawEntry \<Rightarrow> bool" where
  "declLineAdjusted f sp =
     (case rawDeclLine (Field sp) of None \<Rightarrow> fn_line f = 0 | Some w \<Rightarrow> fn_line f = w - 1)"

definition rowLineAdjusted :: "dwarfEntry \<Rightarrow> lineEntry \<Rightarrow> bool" where
  "rowLineAdjusted en le = (line en = le_Line le - 1)"

definition allFuncs :: "dwarfData \<Rightarrow> dwarfFunc list" where
  "allFuncs d = concat (map m_functions (modules d))"

text \<open>What later steps of construction never change in a module and in a function.\<close>

definition moduleCore :: "dwarfModule \<Rightarrow> dwarfModule" where
  "moduleCore m = m\<lparr>m_functions := [], variables := []\<rparr>"

definition funcCore :: "dwarfFunc \<Rightarrow> dwarfFunc" where
  "funcCore f = f\<lparr>fn_name := [], parameters := []\<rparr>"

text \<open>The module and function parts that construction fixes when it appends them, module
  by module.\<close>

definition shape :: "dwarfData \<Rightarrow> (dwarfModule \<times> dwarfFunc list) list" where
  "shape d = map (\<lambda>m. (moduleCore m, map funcCore (m_functions m))) (modules d)"

text \<open>The cursor invariant of the loop: the current module is the last one appended.\<close>

definition curOK :: "parseState \<Rightarrow> bool" where
  "curOK st = (case currentModule st of None \<Rightarrow> True | Some k \<Rightarrow> Suc k = length (modules (data st)))"

text \<open>\<open>[lo, hi)\<close> lies wholly inside \<open>[s, e]\<close>.\<close>

definition rangeInside :: "addr \<times> addr \<Rightarrow> addr \<times> addr \<Rightarrow> bool" where
  "rangeInside r c = (fst r < snd r \<longrightarrow> fst c \<le> fst r \<and> snd r - 1 \<le> snd c)"

definition funcInside :: "dwarfModule \<Rightarrow> dwarfFunc \<Rightarrow> bool" where
  "funcInside m f = rangeInside (lowPC f, highPC f) (startAddress m, endAddress m)"

text \<open>The module invariant of the data model, for a whole index.\<close>

definition wfFiles :: "dwarfData \<Rightarrow> bool" where
  "wfFiles d = list_all (\<lambda>m. list_all (\<lambda>en. e_file en \<in> dom (files m)) (entries m)) (modules d)"

definition wfRanges :: "dwarfData \<Rightarrow> bool" where
  "wfRanges d = list_all (\<lambda>m. list_all (funcInside m) (m_functions m)) (modules d)"

text \<open>On the raw side: every row of every unit's line table names a file of the unit's
  file table; and the first range of every subprogram lies inside the first range of the
  compile unit it follows (\<open>cur\<close> is the first range of the unit being read).\<close>

definition rowsListed :: "rawEntry list \<Rightarrow> bool" where
  "rowsListed raw =
     list_all (\<lambda>e. isUnit e \<longrightarrow> list_all (\<lambda>le. le_File le \<in> set (rawFiles e)) (rawRows e)) raw"

fun rangesNested :: "(addr \<times> addr) option \<Rightarrow> rawEntry list \<Rightarrow> bool" where
  "rangesNested cur [] = True"
| "rangesNested cur (e # es) =
     (if isUnit e then rangesNested (firstRange e) es
      else if isSubprogram e then
        (case (cur, firstRange e) of (Some c, Some r) \<Rightarrow> rangeInside r c | _ \<Rightarrow> True)
        \<and> rangesNested cur es
      else rangesNested cur es)"

definition curRange :: "parseState \<Rightarrow> (addr \<times> addr) option" where
  "curRange st =
     (case currentModule st of
        None \<Rightarrow> None
      | Some k \<Rightarrow> Some (startAddress (modules (data st) ! k), endAddress (modules (data st) ! k)))"

text \<open>A unit whose code lies in two ranges, the function \<open>main\<close> in the second.\<close>

definition multiRangeInput :: "rawEntry list" where
  "multiRangeInput =
     [rawUnit ''hello.c'' [(0x1000, 0x1040), (0x2000, 0x2040)]
        [None, Some ''hello.c'', Some ''mpi_wrap.h'']
        [rawRow 0x1000 ''mpi_wrap.h'' 4 True, rawRow 0x1010 ''mpi_wrap.h'' 40 True,
         rawRow 0x2000 ''hello.c'' 6 True],
      rawSubprogram ''_MPI_WRAPPER_INCLUDE'' 2 4 0x1000 0x1010,
      rawSubprogram ''_MPI_Send'' 2 40 0x1010 0x1040,
      rawSubprogram ''main'' 1 6 0x2000 0x2040]"

definition multiRangeIndex :: dwarfData where
  "multiRangeIndex =
     \<lparr>modules =
        [namedModule ''hello.c'' 0x1000 0x1040 [1 \<mapsto> ''hello.c'', 2 \<mapsto> ''mpi_wrap.h'']
           [exEntry 0x1000 2 3 True, exEntry 0x1010 2 39 True, exEntry 0x2000 1 5 True]
           [declFunc ''_MPI_WRAPPER_INCLUDE'' 2 3 0x1000 0x1010,
            declFunc ''MPI_Send'' 2 39 0x1010 0x1040,
            declFunc ''main'' 1 5 0x2000 0x2040]],
      types = Map.empty,
      mpi = \<lparr>mpi_functions = [(0, 1)], mpi_file = ''mpi_wrap.h''\<rparr>\<rparr>"

text \<open>A compile unit whose line table has two rows at one address, and the module
  that \<open>parseModule\<close> makes of it.\<close>

definition sameAddressUnit :: rawEntry where
  "sameAddressUnit =
     rawUnit ''cu'' [(0, 0x100)] [None, Some ''a.c'']
       [rawRow 0x10 ''a.c'' 6 True, rawRow 0x10 ''a.c'' 7 True]"

section \<open>The stack walker (src/debugger/stack.go)\<close>

text \<open>
  Of the registers \<open>getRegs\<close> returns, \<open>getStack\<close> reads \<open>Rip\<close>, \<open>Rsp\<close> and \<open>Rbp\<close>. The
  memory of the tracee gives a byte for every address that can be read and \<open>None\<close> for
  the others.
\<close>

record ptraceRegs =
  Rip :: addr
  Rsp :: addr
  Rbp :: addr

type_synonym memory = "addr \<Rightarrow> 8 word option"

type_synonym functionStack = "funcRef option list"

text \<open>Modelled from the spec: \<open>ptrSize\<close> and \<open>MAIN_FN\<close> are declared outside the files at
  hand; the specification fixes 8-byte pointers (section 6) and the entry function
  \<open>main\<close> (section 4.6).\<close>

definition ptrSize :: nat where
  "ptrSize = 8"

definition MAIN_FN :: string where
  "MAIN_FN = ''main''"

text \<open>\<open>syscall.PtracePeekData\<close> for \<open>n\<close> bytes from an address on (addresses wrap): it
  fails when one of the bytes cannot be read.\<close>

fun PtracePeekData :: "memory \<Rightarrow> addr \<Rightarrow> nat \<Rightarrow> 8 word list option" where
  "PtracePeekData mem a 0 = Some []"
| "PtracePeekData mem a (Suc n) =
     (case mem a of
        None \<Rightarrow> None
      | Some b \<Rightarrow> map_option ((#) b) (PtracePeekData mem (a + 1) n))"

text \<open>The slice expression \<open>frameData[lo:hi]\<close> of a slice made with \<open>make([]byte, n)\<close>: it
  panics when \<open>hi\<close> exceeds the capacity \<open>n\<close>.\<close>

definition slice :: "8 word list \<Rightarrow> nat \<Rightarrow> nat \<Rightarrow> error + 8 word list" where
  "slice frameData lo hi =
     (if hi \<le> length frameData then Inr (take (hi - lo) (drop lo frameData))
      else Inl SliceOutOfRange)"

text \<open>\<open>binary.LittleEndian.Uint64\<close> on eight bytes.\<close>

fun le64 :: "8 word list \<Rightarrow> 64 word" where
  "le64 [] = 0"
| "le64 (b # bs) = ucast b + 256 * le64 bs"

text \<open>
  The inner loop \<open>for offset = 0; offset < frameSize; offset += ptrSize\<close>: it reads the
  word at each offset and, at the offset \<open>frameSize - ptrSize\<close>, returns it as the new base
  pointer. \<open>frameSize\<close> is at most 1024 here, so that no \<open>uint64\<close> operation wraps.
\<close>

function frameEnd :: "8 word list \<Rightarrow> nat \<Rightarrow> nat \<Rightarrow> error + 64 word option" where
  "frameEnd frameData frameSize offset =
     (if offset < frameSize then
        (case slice frameData offset (offset + ptrSize) of
           Inl e \<Rightarrow> Inl e
         | Inr w \<Rightarrow>
             if offset = frameSize - ptrSize then Inr (Some (le64 w))
             else frameEnd frameData frameSize (offset + ptrSize))
      else Inr None)"
  by pat_completeness auto

termination
  by (relation "measure (\<lambda>(frameData, frameSize, offset). frameSize - offset)")
     (auto simp: ptrSize_def)

text \<open>One round of the loop of \<open>getStack\<close>: it ends the walk with the stack, panics, or
  goes on with a new stack pointer, base pointer and stack.

  Modelled from the spec: \<open>must\<close> is declared outside the files at hand; by section 9 of
  the specification the original panics on errors, so a failed peek is a panic.\<close>

datatype frameStep = Done functionStack | Panic error | Next addr addr functionStack

definition walkFrame ::
  "dwarfData \<Rightarrow> memory \<Rightarrow> addr \<Rightarrow> addr \<Rightarrow> functionStack \<Rightarrow> frameStep" where
  "walkFrame d mem stackPointer basePointer fnStack =
     (let size0 = basePointer - stackPointer + 8;
          frameSize = (if 1024 < size0 \<or> size0 \<le> 8 then 32 else size0)
      in case PtracePeekData mem stackPointer (unat frameSize) of
           None \<Rightarrow> Panic PeekFailed
         | Some frameData \<Rightarrow>
             (case slice frameData 0 ptrSize of
                Inl e \<Rightarrow> Panic e
              | Inr w0 \<Rightarrow>
                  (case (case PCToFunc d (le64 w0) of
                           Some fn \<Rightarrow> Inr (Some fn)
                         | None \<Rightarrow>
                             (case slice frameData ptrSize (2 * ptrSize) of
                                Inl e \<Rightarrow> Inl e
                              | Inr w1 \<Rightarrow> Inr (PCToFunc d (le64 w1)))) of
                     Inl e \<Rightarrow> Panic e
                   | Inr None \<Rightarrow> Done fnStack
                   | Inr (Some fn) \<Rightarrow>
                       (case frameEnd frameData (unat frameSize) 0 of
                          Inl e \<Rightarrow> Panic e
                        | Inr newBase \<Rightarrow>
                            (case funcAt d fn of
                               None \<Rightarrow> Panic NilDereference
                             | Some f \<Rightarrow>
                                 if fn_name f = MAIN_FN then Done (fnStack @ [Some fn])
                                 else Next (stackPointer + frameSize)
                                        (case newBase of None \<Rightarrow> basePointer | Some b \<Rightarrow> b)
                                        (fnStack @ [Some fn]))))))"

text \<open>The loop: \<open>None\<close> when it runs forever, else what it returns or the panic.\<close>

partial_function (option) walk ::
  "dwarfData \<Rightarrow> memory \<Rightarrow> addr \<Rightarrow> addr \<Rightarrow> functionStack \<Rightarrow> (error + functionStack) option" where
  "walk d mem stackPointer basePointer fnStack =
     (case walkFrame d mem stackPointer basePointer fnStack of
        Done s \<Rightarrow> Some (Inr s)
      | Panic e \<Rightarrow> Some (Inl e)
      | Next sp bp s \<Rightarrow> walk d mem sp bp s)"

definition getStack :: "dwarfData \<Rightarrow> ptraceRegs \<Rightarrow> memory \<Rightarrow> (error + functionStack) option" where
  "getStack d regs mem = walk d mem (Rsp regs) (Rbp regs) [PCToFunc d (Rip regs)]"

section \<open>Example tracee states\<close>

text \<open>A stack page at 0x7ffc0000 whose first word is 0x1048, an address in \<open>main\<close> of
  \<open>mainIndex\<close>; every other address is unreadable.\<close>

definition stackPage :: memory where
  "stackPage a =
     (if 0x7ffc0000 \<le> a \<and> a < 0x7ffc1000
      then Some (if a = 0x7ffc0000 then 0x48 else if a = 0x7ffc0001 then 0x10 else 0)
      else None)"

definition alignedRegs :: ptraceRegs where
  "alignedRegs = \<lparr>Rip = 0x1008, Rsp = 0x7ffc0000, Rbp = 0x7ffc0008\<rparr>"

definition misalignedRegs :: ptraceRegs where
  "misalignedRegs = \<lparr>Rip = 0x1008, Rsp = 0x7ffc0000, Rbp = 0x7ffc0004\<rparr>"

text \<open>A tracee all of whose memory reads as zero, and an index whose only function, \<open>f\<close>,
  covers address 0.\<close>

definition zeroMemory :: memory where
  "zeroMemory a = Some 0"

definition loopIndex :: dwarfData where
  "loopIndex = exIndex [exModule 0 0x100 [1 \<mapsto> ''f.c''] [] [exFunc ''f'' 1 0 0x100]]"

definition loopRegs :: ptraceRegs where
  "loopRegs = \<lparr>Rip = 0x10, Rsp = 0, Rbp = 8\<rparr>"

(*PROPERTIES*)
section \<open>Properties of the line-table lookups\<close>

lemma find_append_case:
  "find P (xs @ ys) = (case find P xs of None \<Rightarrow> find P ys | Some x \<Rightarrow> Some x)"
  by (induction xs) simp_all

lemma scanEntries_find:
  "scanEntries m f l es =
     map_option (\<lambda>me. address (snd me)) (find (stmtEntryFor f l) (map (Pair m) es))"
  by (induction es) (auto simp: stmtEntryFor_def)

lemma lineToPCFrom_find:
  "lineToPCFrom ms f l =
     map_option (\<lambda>me. address (snd me))
       (find (\<lambda>me. f \<in> ran (files (fst me)) \<and> stmtEntryFor f l me) (indexEntries ms))"
proof (induction ms)
  case Nil
  show ?case by (simp add: indexEntries_def)
next
  case (Cons m ms)
  have guard: "find (\<lambda>me. f \<in> ran (files (fst me)) \<and> stmtEntryFor f l me) (map (Pair m) es)
      = (if f \<in> ran (files m) then find (stmtEntryFor f l) (map (Pair m) es) else None)" for es
    by (induction es) auto
  show ?case
    using Cons.IH
    by (simp add: indexEntries_def find_append_case moduleLineToPC_def scanEntries_find guard
        split: option.splits)
qed


lemma stmtEntry_guard:
  assumes "f \<noteq> [] \<or> (\<forall>m\<in>set ms. \<forall>e\<in>set (entries m). e_file e \<in> dom (files m))"
    and "me \<in> set (indexEntries ms)" and "stmtEntryFor f l me"
  shows "f \<in> ran (files (fst me))"
proof -
  obtain m e where me: "me = (m, e)" "m \<in> set ms" "e \<in> set (entries m)"
    using assms(2) by (auto simp: indexEntries_def)
  have path: "filesAt m (e_file e) = f"
    using assms(3) me by (simp add: stmtEntryFor_def)
  show ?thesis
  proof (cases "files m (e_file e)")
    case None
    then have "f = []" using path by (simp add: filesAt_def)
    with assms(1) me None show ?thesis by (force simp: dom_def)
  next
    case (Some p)
    then have "p = f" using path by (simp add: filesAt_def)
    with Some me show ?thesis by (auto simp: ran_def)
  qed
qed

lemma lineToPC_find:
  "lineToPC d f l =
     (case find (\<lambda>me. f \<in> ran (files (fst me)) \<and> stmtEntryFor f l me) (indexEntries (modules d)) of
        None \<Rightarrow> Inl NoAddressForLine
      | Some me \<Rightarrow> Inr (address (snd me)))"
  by (simp add: lineToPC_def lineToPCFrom_find split: option.splits)

text \<open>
  Claim C3. In an index whose modules keep the invariant that every entry's file id is a
  key of the module's \<open>files\<close> map (and, whatever the index, for a non-empty \<open>file\<close>),
  \<open>lineToPC file line\<close> returns the address of the first entry, scanning the modules in
  index order and each module's entries in order, whose file path is \<open>file\<close>, whose
  stored line is \<open>line\<close> and whose \<open>isStmt\<close> flag is set, and it returns an error exactly
  when no module has such an entry (second conjunct). The first conjunct is what the
  loops compute on any index: the same scan, over the modules that have \<open>file\<close> among the
  values of their \<open>files\<close> map.
\<close>

theorem lineToPC_first_entry:
  "lineToPC d f l =
     (case find (\<lambda>me. f \<in> ran (files (fst me)) \<and> stmtEntryFor f l me) (indexEntries (modules d)) of
        None \<Rightarrow> Inl NoAddressForLine
      | Some me \<Rightarrow> Inr (address (snd me)))
   \<and> (f \<noteq> [] \<or> (\<forall>m\<in>set (modules d). \<forall>e\<in>set (entries m). e_file e \<in> dom (files m)) \<longrightarrow>
      lineToPC d f l =
        (case find (stmtEntryFor f l) (indexEntries (modules d)) of
           None \<Rightarrow> Inl NoAddressForLine
         | Some me \<Rightarrow> Inr (address (snd me))))"
proof -
  have "find (\<lambda>me. f \<in> ran (files (fst me)) \<and> stmtEntryFor f l me) (indexEntries (modules d))
      = find (stmtEntryFor f l) (indexEntries (modules d))"
    if "f \<noteq> [] \<or> (\<forall>m\<in>set (modules d). \<forall>e\<in>set (entries m). e_file e \<in> dom (files m))"
    using stmtEntry_guard [OF that] by (intro find_cong) auto
  with lineToPC_find [of d f l] show ?thesis by simp
qed

theorem lineToPC_first_entry_witness:
  "''a.c'' \<noteq> []
   \<and> list_all (\<lambda>m. list_all (\<lambda>e. e_file e \<in> dom (files m)) (entries m)) (modules twoLineIndex)
   \<and> lineToPC twoLineIndex ''a.c'' 5 = Inr 0x20
   \<and> find (stmtEntryFor ''a.c'' 5) (indexEntries (modules twoLineIndex))
       = Some (hd (modules twoLineIndex), exEntry 0x20 1 5 True)"
  using lineToPC_first_entry [of twoLineIndex "''a.c''" 5]
  by (simp add: twoLineIndex_def exIndex_def exModule_def exEntry_def indexEntries_def
      stmtEntryFor_def filesAt_def)

lemma find_Some_ex: "\<exists>x\<in>set xs. P x \<Longrightarrow> \<exists>y. find P xs = Some y"
  by (cases "find P xs") (auto simp: find_None_iff)

lemma entryAt_find: "entryAt es pc = find (\<lambda>e. address e = pc) es"
  by (induction es) simp_all

lemma PCToLineFrom_find:
  "PCToLineFrom ms pc =
     (case find (pcModule pc) ms of
        None \<Rightarrow> None
      | Some m \<Rightarrow> map_option (\<lambda>e. (line e, filesAt m (e_file e))) (find (\<lambda>e. address e = pc) (entries m)))"
proof (induction ms)
  case Nil
  show ?case by simp
next
  case (Cons m ms)
  show ?case
  proof (cases "pcModule pc m")
    case True
    then obtain e where "find (\<lambda>e. address e = pc) (entries m) = Some e"
      using find_Some_ex [of "entries m" "\<lambda>e. address e = pc"]
      by (auto simp: pcModule_def list_ex_iff)
    with True show ?thesis by (simp add: pcModule_def entryAt_find)
  next
    case False
    then have "\<not> (startAddress m \<le> pc \<and> pc \<le> endAddress m)
        \<or> find (\<lambda>e. address e = pc) (entries m) = None"
      by (auto simp: pcModule_def list_ex_iff find_None_iff)
    with False Cons.IH show ?thesis by (auto simp: entryAt_find)
  qed
qed

lemma find_SomeD: "find P xs = Some x \<Longrightarrow> P x \<and> x \<in> set xs"
  by (auto simp: find_Some_iff)

lemma PCToLine_find:
  "PCToLine d pc =
       (case find (pcModule pc) (modules d) of
          None \<Rightarrow> Inl NoLineForAddress
        | Some m \<Rightarrow>
            (case find (\<lambda>e. address e = pc) (entries m) of
               None \<Rightarrow> Inl NoLineForAddress
             | Some e \<Rightarrow> Inr (line e, filesAt m (e_file e), PCToFunc d pc)))"
  by (simp add: PCToLine_def PCToLineFrom_find split: option.splits)

text \<open>
  Claim C4. \<open>PCToLine pc\<close> succeeds exactly when some module has
  \<open>startAddress \<le> pc \<le> endAddress\<close> and an entry whose address is \<open>pc\<close>; it then returns
  the line and the file path of the first such entry of the first such module. There is
  no interval lookup: at a \<open>pc\<close> that is the address of no entry, as every \<open>pc\<close> strictly
  inside an entry's range is, it returns an error.
\<close>

theorem PCToLine_exact:
  "((\<exists>r. PCToLine d pc = Inr r) \<longleftrightarrow>
      (\<exists>m\<in>set (modules d). startAddress m \<le> pc \<and> pc \<le> endAddress m
          \<and> (\<exists>e\<in>set (entries m). address e = pc)))
   \<and> PCToLine d pc =
       (case find (pcModule pc) (modules d) of
          None \<Rightarrow> Inl NoLineForAddress
        | Some m \<Rightarrow>
            (case find (\<lambda>e. address e = pc) (entries m) of
               None \<Rightarrow> Inl NoLineForAddress
             | Some e \<Rightarrow> Inr (line e, filesAt m (e_file e), PCToFunc d pc)))
   \<and> ((\<forall>m\<in>set (modules d). \<forall>e\<in>set (entries m). address e \<noteq> pc) \<longrightarrow>
        PCToLine d pc = Inl NoLineForAddress)"
proof -
  have eq: "PCToLine d pc =
       (case find (pcModule pc) (modules d) of
          None \<Rightarrow> Inl NoLineForAddress
        | Some m \<Rightarrow>
            (case find (\<lambda>e. address e = pc) (entries m) of
               None \<Rightarrow> Inl NoLineForAddress
             | Some e \<Rightarrow> Inr (line e, filesAt m (e_file e), PCToFunc d pc)))"
    by (rule PCToLine_find)
  have some: "\<exists>e. find (\<lambda>e. address e = pc) (entries m) = Some e" if "pcModule pc m" for m
    using that find_Some_ex [of "entries m" "\<lambda>e. address e = pc"]
    by (auto simp: pcModule_def list_ex_iff)
  have iff: "(\<exists>r. PCToLine d pc = Inr r) \<longleftrightarrow> (\<exists>m\<in>set (modules d). pcModule pc m)"
  proof (cases "find (pcModule pc) (modules d)")
    case None
    then have "\<forall>m\<in>set (modules d). \<not> pcModule pc m"
      by (simp add: find_None_iff)
    with None show ?thesis by (simp add: eq)
  next
    case (Some m)
    then have "pcModule pc m" "m \<in> set (modules d)"
      by (auto simp: find_Some_iff)
    with Some some [of m] show ?thesis by (auto simp: eq)
  qed
  have none: "PCToLine d pc = Inl NoLineForAddress"
    if "\<forall>m\<in>set (modules d). \<forall>e\<in>set (entries m). address e \<noteq> pc"
  proof -
    have "find (pcModule pc) (modules d) = None"
      using that by (auto simp: find_None_iff pcModule_def list_ex_iff)
    then show ?thesis by (simp add: eq)
  qed
  from iff eq none show ?thesis
    by (simp add: pcModule_def list_ex_iff)
qed

theorem PCToLine_exact_witness:
  "list_all (\<lambda>m. list_all (\<lambda>e. address e \<noteq> 0x18) (entries m)) (modules twoLineIndex)
   \<and> PCToLine twoLineIndex 0x18 = Inl NoLineForAddress
   \<and> PCToLine twoLineIndex 0x20 = Inr (5, ''a.c'', None)"
  using PCToLine_exact [of twoLineIndex "0x18"] PCToLine_exact [of twoLineIndex "0x20"]
  by (simp add: twoLineIndex_def exIndex_def exModule_def exEntry_def pcModule_def
      filesAt_def PCToFunc_def)

text \<open>
  Claim C1, amended. In an index where every entry's address lies in its module's
  \<open>[startAddress, endAddress]\<close> and entries with the same address agree on line and file
  path, every statement entry whose file id is a key of its module's \<open>files\<close> map makes
  the round trip: \<open>lineToPC\<close> at its file path and line succeeds, and \<open>PCToLine\<close> at the
  returned address succeeds with that line and that file.
\<close>

theorem lineToPC_PCToLine_roundtrip:
  assumes m: "m \<in> set (modules d)" and e: "e \<in> set (entries m)" and stmt: "isStmt e"
    and key: "e_file e \<in> dom (files m)"
    and inrange: "\<forall>m\<in>set (modules d). \<forall>e\<in>set (entries m).
        startAddress m \<le> address e \<and> address e \<le> endAddress m"
    and agree: "\<forall>m\<in>set (modules d). \<forall>m'\<in>set (modules d).
        \<forall>e\<in>set (entries m). \<forall>e'\<in>set (entries m').
          address e = address e' \<longrightarrow>
          line e = line e' \<and> filesAt m (e_file e) = filesAt m' (e_file e')"
  shows "\<exists>a. lineToPC d (filesAt m (e_file e)) (line e) = Inr a
            \<and> PCToLine d a = Inr (line e, filesAt m (e_file e), PCToFunc d a)"
proof -
  define f where "f = filesAt m (e_file e)"
  define l where "l = line e"
  let ?P = "\<lambda>me. f \<in> ran (files (fst me)) \<and> stmtEntryFor f l me"
  have mem: "(m, e) \<in> set (indexEntries (modules d))"
    using m e by (auto simp: indexEntries_def)
  have "f \<in> ran (files m)"
    using key by (auto simp: f_def filesAt_def ran_def)
  then have "?P (m, e)"
    using stmt by (simp add: stmtEntryFor_def f_def l_def)
  with mem obtain me' where found: "find ?P (indexEntries (modules d)) = Some me'"
    using find_Some_ex [of "indexEntries (modules d)" ?P] by blast
  obtain m' e' where me': "me' = (m', e')" by (cases me')
  from find_SomeD [OF found] have P': "stmtEntryFor f l (m', e')"
    and m': "m' \<in> set (modules d)" and e': "e' \<in> set (entries m')"
    by (auto simp: me' indexEntries_def)
  define a where "a = address e'"
  have l2pc: "lineToPC d f l = Inr a"
    by (simp add: lineToPC_find found me' a_def)
  have "pcModule a m'"
    using inrange m' e' by (auto simp: pcModule_def a_def list_ex_iff)
  with m' obtain m'' where found_m: "find (pcModule a) (modules d) = Some m''"
    using find_Some_ex [of "modules d" "pcModule a"] by blast
  from find_SomeD [OF found_m] have pm'': "pcModule a m''" and m'': "m'' \<in> set (modules d)"
    by auto
  from pm'' obtain e'' where found_e: "find (\<lambda>e. address e = a) (entries m'') = Some e''"
    using find_Some_ex [of "entries m''" "\<lambda>e. address e = a"]
    by (auto simp: pcModule_def list_ex_iff)
  from find_SomeD [OF found_e] have a'': "address e'' = a" and e'': "e'' \<in> set (entries m'')"
    by auto
  have "address e'' = address e'"
    using a'' by (simp add: a_def)
  with agree [rule_format, OF m'' m' e'' e'] have "line e'' = line e'"
    and "filesAt m'' (e_file e'') = filesAt m' (e_file e')"
    by simp_all
  with P' have "line e'' = l" "filesAt m'' (e_file e'') = f"
    by (simp_all add: stmtEntryFor_def)
  then have "PCToLine d a = Inr (l, f, PCToFunc d a)"
    by (simp add: PCToLine_find found_m found_e)
  with l2pc show ?thesis
    unfolding f_def l_def by blast
qed

theorem lineToPC_PCToLine_roundtrip_witness:
  "hd (modules twoLineIndex) \<in> set (modules twoLineIndex)
   \<and> exEntry 0x30 1 6 True \<in> set (entries (hd (modules twoLineIndex)))
   \<and> isStmt (exEntry 0x30 1 6 True)
   \<and> e_file (exEntry 0x30 1 6 True) \<in> dom (files (hd (modules twoLineIndex)))
   \<and> list_all (\<lambda>m. list_all (\<lambda>e. startAddress m \<le> address e \<and> address e \<le> endAddress m)
         (entries m)) (modules twoLineIndex)
   \<and> distinct (map (\<lambda>me. address (snd me)) (indexEntries (modules twoLineIndex)))
   \<and> lineToPC twoLineIndex ''a.c'' 6 = Inr 0x30
   \<and> PCToLine twoLineIndex 0x30 = Inr (6, ''a.c'', PCToFunc twoLineIndex 0x30)"
proof -
  have h: "hd (modules twoLineIndex) \<in> set (modules twoLineIndex)"
    "exEntry 0x30 1 6 True \<in> set (entries (hd (modules twoLineIndex)))"
    "isStmt (exEntry 0x30 1 6 True)"
    "e_file (exEntry 0x30 1 6 True) \<in> dom (files (hd (modules twoLineIndex)))"
    "\<forall>m\<in>set (modules twoLineIndex). \<forall>e\<in>set (entries m).
        startAddress m \<le> address e \<and> address e \<le> endAddress m"
    "\<forall>m\<in>set (modules twoLineIndex). \<forall>m'\<in>set (modules twoLineIndex).
        \<forall>e\<in>set (entries m). \<forall>e'\<in>set (entries m').
          address e = address e' \<longrightarrow>
          line e = line e' \<and> filesAt m (e_file e) = filesAt m' (e_file e')"
    by (simp_all add: twoLineIndex_def exIndex_def exModule_def exEntry_def filesAt_def)
  have v: "lineToPC twoLineIndex ''a.c'' 6 = Inr 0x30"
    by (simp add: twoLineIndex_def exIndex_def exModule_def exEntry_def filesAt_def
        lineToPC_def moduleLineToPC_def)
  from lineToPC_PCToLine_roundtrip [OF h]
  have "\<exists>a. lineToPC twoLineIndex ''a.c'' 6 = Inr a
          \<and> PCToLine twoLineIndex a = Inr (6, ''a.c'', PCToFunc twoLineIndex a)"
    by (simp add: twoLineIndex_def exIndex_def exModule_def exEntry_def filesAt_def)
  with v have r: "PCToLine twoLineIndex 0x30 = Inr (6, ''a.c'', PCToFunc twoLineIndex 0x30)"
    by auto
  have w: "list_all (\<lambda>m. list_all (\<lambda>e. startAddress m \<le> address e \<and> address e \<le> endAddress m)
         (entries m)) (modules twoLineIndex)"
    "distinct (map (\<lambda>me. address (snd me)) (indexEntries (modules twoLineIndex)))"
    by (simp_all add: twoLineIndex_def exIndex_def exModule_def exEntry_def indexEntries_def)
  from h(1-4) v r w show ?thesis by blast
qed

lemma moduleLookupFunc_None:
  "moduleLookupFunc fs n i = None \<longleftrightarrow> (\<forall>f\<in>set fs. fn_name f \<noteq> n)"
  by (induction fs arbitrary: i) auto

lemma moduleLookupFunc_Some:
  "moduleLookupFunc fs n i = Some j \<Longrightarrow>
     i \<le> j \<and> j - i < length fs \<and> fn_name (fs ! (j - i)) = n
     \<and> (\<forall>k<j - i. fn_name (fs ! k) \<noteq> n)"
proof (induction fs arbitrary: i)
  case Nil
  then show ?case by simp
next
  case (Cons f fs)
  show ?case
  proof (cases "fn_name f = n")
    case True
    with Cons.prems show ?thesis by simp
  next
    case False
    with Cons.prems have rec: "moduleLookupFunc fs n (Suc i) = Some j" by simp
    from Cons.IH [OF rec] have ih: "Suc i \<le> j" "j - Suc i < length fs"
      "fn_name (fs ! (j - Suc i)) = n" "\<forall>k<j - Suc i. fn_name (fs ! k) \<noteq> n"
      by auto
    from ih(1) have eq: "j - i = Suc (j - Suc i)" by simp
    have "\<forall>k<j - i. fn_name ((f # fs) ! k) \<noteq> n"
    proof (intro allI impI)
      fix k assume "k < j - i"
      then show "fn_name ((f # fs) ! k) \<noteq> n"
        using False ih(4) eq by (cases k) auto
    qed
    with ih eq show ?thesis by auto
  qed
qed

lemma lookupFuncFrom_None:
  "lookupFuncFrom ms n k = None \<longleftrightarrow> (\<forall>m\<in>set ms. \<forall>f\<in>set (m_functions m). fn_name f \<noteq> n)"
proof (induction ms arbitrary: k)
  case Nil
  show ?case by simp
next
  case (Cons m ms)
  show ?case
  proof (cases "moduleLookupFunc (m_functions m) n 0")
    case None
    with Cons.IH [of "Suc k"] moduleLookupFunc_None [of "m_functions m" n 0]
    show ?thesis by simp
  next
    case (Some i)
    with moduleLookupFunc_None [of "m_functions m" n 0] show ?thesis by auto
  qed
qed

lemma lookupFunc_None: "lookupFunc d n = None \<longleftrightarrow> \<not> hasFunc d n"
  by (auto simp: lookupFunc_def lookupFuncFrom_None hasFunc_def list_ex_iff)

text \<open>
  Claim C9. For a function name that no module has, \<open>lookupFunc\<close> returns nil for the
  module and the function, and \<open>getEntriesForFunction\<close>, like \<open>getSourceFileInfo\<close> when no
  function is named \<open>main\<close>, dereferences the nil module: the panic is their only failure,
  there is no error branch. Each returns a value exactly when the function looked up is in
  the index.
\<close>

theorem lookups_total_iff_function_exists:
  "(lookupFunc d n = None \<longleftrightarrow> \<not> hasFunc d n)
   \<and> (getEntriesForFunction d n = Inl NilDereference \<longleftrightarrow> \<not> hasFunc d n)
   \<and> ((\<exists>es. getEntriesForFunction d n = Inr es) \<longleftrightarrow> hasFunc d n)
   \<and> (getSourceFileInfo d = Inl NilDereference \<longleftrightarrow> \<not> hasFunc d ''main'')
   \<and> ((\<exists>p. getSourceFileInfo d = Inr p) \<longleftrightarrow> hasFunc d ''main'')"
proof -
  have e: "getEntriesForFunction d n = Inl NilDereference \<longleftrightarrow> lookupFunc d n = None"
    and e': "(\<exists>es. getEntriesForFunction d n = Inr es) \<longleftrightarrow> lookupFunc d n \<noteq> None"
    by (auto simp: getEntriesForFunction_def Let_def split: option.splits)
  have s: "getSourceFileInfo d = Inl NilDereference \<longleftrightarrow> lookupFunc d ''main'' = None"
    and s': "(\<exists>p. getSourceFileInfo d = Inr p) \<longleftrightarrow> lookupFunc d ''main'' \<noteq> None"
    by (auto simp: getSourceFileInfo_def Let_def split: option.splits)
  show ?thesis
    unfolding e e' s s' by (simp add: lookupFunc_None)
qed

theorem lookups_total_iff_function_exists_witness:
  "\<not> hasFunc mainIndex ''MPI_Send''
   \<and> lookupFunc mainIndex ''MPI_Send'' = None
   \<and> getEntriesForFunction mainIndex ''MPI_Send'' = Inl NilDereference
   \<and> \<not> hasFunc twoLineIndex ''main''
   \<and> getSourceFileInfo twoLineIndex = Inl NilDereference
   \<and> hasFunc mainIndex ''main''
   \<and> getSourceFileInfo mainIndex = Inr ''hello.c''
   \<and> getEntriesForFunction mainIndex ''helper'' = Inr [exEntry 0x1000 1 3 True, exEntry 0x1008 1 4 True]"
proof -
  have a: "\<not> hasFunc mainIndex ''MPI_Send''" "\<not> hasFunc twoLineIndex ''main''"
    "hasFunc mainIndex ''main''"
    by (simp_all add: hasFunc_def mainIndex_def twoLineIndex_def exIndex_def exModule_def exFunc_def)
  have b: "getSourceFileInfo mainIndex = Inr ''hello.c''"
    "getEntriesForFunction mainIndex ''helper'' = Inr [exEntry 0x1000 1 3 True, exEntry 0x1008 1 4 True]"
    by (simp_all add: getSourceFileInfo_def getEntriesForFunction_def lookupFunc_def mainIndex_def
        exIndex_def exModule_def exFunc_def exEntry_def filesAt_def)
  from a b lookups_total_iff_function_exists [of mainIndex "''MPI_Send''"]
    lookups_total_iff_function_exists [of twoLineIndex "''main''"]
  show ?thesis by simp
qed

text \<open>
  Claim C5 fails on the code. After two registrations and the exit of node 0 the map has
  one key, so the third \<open>Register\<close> replies 1 again, the id of the node still registered,
  and replaces that node's record: the ids are not strictly increasing, and the registry
  has lost process 101.
\<close>

theorem Register_reuses_id:
  "snd (serve emptyRegistry reuseCalls) = [0, 1, 1]
   \<and> registeredNodes (fst (serve emptyRegistry reuseCalls)) 1 = Some \<lparr>node_id = 1, node_pid = 102\<rparr>
   \<and> dom (registeredNodes (fst (serve emptyRegistry reuseCalls))) = {1}
   \<and> \<not> exitScheduled (fst (serve emptyRegistry reuseCalls))"
  by (simp add: reuseCalls_def emptyRegistry_def Register_def ReportCommandResult_def Let_def)

lemma moduleLookupFunc_Some0:
  assumes "moduleLookupFunc fs n 0 = Some i"
  shows "i < length fs \<and> fn_name (fs ! i) = n \<and> (\<forall>j<i. fn_name (fs ! j) \<noteq> n)"
  using moduleLookupFunc_Some [OF assms] by simp

lemma lookupFuncFrom_Some:
  "lookupFuncFrom ms n k0 = Some (k, i) \<Longrightarrow>
     k0 \<le> k \<and> k - k0 < length ms
     \<and> moduleLookupFunc (m_functions (ms ! (k - k0))) n 0 = Some i
     \<and> (\<forall>j<k - k0. moduleLookupFunc (m_functions (ms ! j)) n 0 = None)"
proof (induction ms arbitrary: k0)
  case Nil
  then show ?case by simp
next
  case (Cons m ms)
  show ?case
  proof (cases "moduleLookupFunc (m_functions m) n 0")
    case (Some i')
    with Cons.prems show ?thesis by simp
  next
    case None
    with Cons.prems have rec: "lookupFuncFrom ms n (Suc k0) = Some (k, i)" by simp
    from Cons.IH [OF rec] have ih: "Suc k0 \<le> k" "k - Suc k0 < length ms"
      "moduleLookupFunc (m_functions (ms ! (k - Suc k0))) n 0 = Some i"
      "\<forall>j<k - Suc k0. moduleLookupFunc (m_functions (ms ! j)) n 0 = None"
      by auto
    from ih(1) have eq: "k - k0 = Suc (k - Suc k0)" by simp
    have "\<forall>j<k - k0. moduleLookupFunc (m_functions ((m # ms) ! j)) n 0 = None"
    proof (intro allI impI)
      fix j assume "j < k - k0"
      then show "moduleLookupFunc (m_functions ((m # ms) ! j)) n 0 = None"
        using None ih(4) eq by (cases j) auto
    qed
    with ih eq show ?thesis by auto
  qed
qed

lemma lookupFunc_Some:
  assumes "lookupFunc d n = Some (k, i)"
  shows "k < length (modules d) \<and> i < length (m_functions (modules d ! k))
     \<and> fn_name (m_functions (modules d ! k) ! i) = n
     \<and> (\<forall>j<i. fn_name (m_functions (modules d ! k) ! j) \<noteq> n)
     \<and> (\<forall>k'<k. \<forall>f\<in>set (m_functions (modules d ! k')). fn_name f \<noteq> n)"
proof -
  from assms have "lookupFuncFrom (modules d) n 0 = Some (k, i)"
    by (simp add: lookupFunc_def)
  from lookupFuncFrom_Some [OF this]
  have a: "k < length (modules d)"
    and b: "moduleLookupFunc (m_functions (modules d ! k)) n 0 = Some i"
    and c: "\<forall>j<k. moduleLookupFunc (m_functions (modules d ! j)) n 0 = None"
    by auto
  from c have "\<forall>k'<k. \<forall>f\<in>set (m_functions (modules d ! k')). fn_name f \<noteq> n"
    by (simp add: moduleLookupFunc_None)
  with a moduleLookupFunc_Some0 [OF b] show ?thesis by simp
qed

lemma funcAt_Some:
  "funcAt d (k, i) = Some f \<longleftrightarrow>
     k < length (modules d) \<and> i < length (m_functions (modules d ! k))
     \<and> f = m_functions (modules d ! k) ! i"
  by (auto simp: funcAt_def)

lemma hasFunc_iff_slot: "hasFunc d n \<longleftrightarrow> (\<exists>r f. funcAt d r = Some f \<and> fn_name f = n)"
proof
  assume "hasFunc d n"
  then obtain m f where "m \<in> set (modules d)" "f \<in> set (m_functions m)" "fn_name f = n"
    by (auto simp: hasFunc_def list_ex_iff)
  then obtain k i where "k < length (modules d)" "m = modules d ! k"
    "i < length (m_functions m)" "f = m_functions m ! i"
    by (auto simp: in_set_conv_nth)
  with \<open>fn_name f = n\<close> have "funcAt d (k, i) = Some f \<and> fn_name f = n"
    by (simp add: funcAt_Some)
  then show "\<exists>r f. funcAt d r = Some f \<and> fn_name f = n" by blast
next
  assume "\<exists>r f. funcAt d r = Some f \<and> fn_name f = n"
  then obtain k i f where "funcAt d (k, i) = Some f" "fn_name f = n" by auto
  then show "hasFunc d n"
    by (auto simp: funcAt_Some hasFunc_def list_ex_iff intro!: bexI [of _ "modules d ! k"])
qed

lemma lookupFunc_slot:
  assumes "lookupFunc d n = Some r"
  shows "\<exists>f. funcAt d r = Some f \<and> fn_name f = n"
proof -
  obtain k i where r: "r = (k, i)" by (cases r)
  from lookupFunc_Some [of d n k i] assms r show ?thesis
    by (simp add: funcAt_Some)
qed

lemma lookupFunc_unique:
  assumes "funcAt d r = Some f" and "fn_name f = n"
    and "\<forall>r' f'. funcAt d r' = Some f' \<and> fn_name f' = n \<longrightarrow> r' = r"
  shows "lookupFunc d n = Some r"
proof -
  have "hasFunc d n" using assms(1,2) hasFunc_iff_slot by blast
  then obtain r' where r': "lookupFunc d n = Some r'"
    using lookupFunc_None [of d n] by (cases "lookupFunc d n") auto
  from lookupFunc_slot [OF r'] assms(3) have "r' = r" by blast
  with r' show ?thesis by simp
qed

lemma stripWrappers_enumerate:
  "stripWrappers sf si k fs i =
     (if list_ex (\<lambda>jf. wrapperSlot sf si jf \<and> fn_name (snd jf) = []) (enumerate i fs)
      then Inl SliceOutOfRange
      else Inr (map (\<lambda>jf. if wrapperSlot sf si jf then stripName (snd jf) else snd jf) (enumerate i fs),
                map (\<lambda>jf. (k, fst jf)) (filter (wrapperSlot sf si) (enumerate i fs))))"
  by (induction fs arbitrary: i) (auto simp: wrapperSlot_def stripName_def bindE_def)

lemma stripWrappers_result:
  assumes names: "\<forall>i<length fs. fn_file (fs ! i) = sf \<and> i \<noteq> si \<longrightarrow> fn_name (fs ! i) \<noteq> []"
  shows "\<exists>fs' refs. stripWrappers sf si k fs 0 = Inr (fs', refs)
     \<and> length fs' = length fs
     \<and> (\<forall>i<length fs. fs' ! i = (if fn_file (fs ! i) = sf \<and> i \<noteq> si then stripName (fs ! i) else fs ! i))
     \<and> set refs = {(k, i) | i. i < length fs \<and> fn_file (fs ! i) = sf \<and> i \<noteq> si}
     \<and> distinct refs"
proof -
  let ?W = "wrapperSlot sf si"
  let ?fs' = "map (\<lambda>jf. if ?W jf then stripName (snd jf) else snd jf) (enumerate 0 fs)"
  let ?refs = "map (\<lambda>jf. (k, fst jf)) (filter ?W (enumerate 0 fs))"
  have "\<not> list_ex (\<lambda>jf. ?W jf \<and> fn_name (snd jf) = []) (enumerate 0 fs)"
    using names by (auto simp: list_ex_iff in_set_enumerate_eq wrapperSlot_def)
  then have res: "stripWrappers sf si k fs 0 = Inr (?fs', ?refs)"
    by (simp add: stripWrappers_enumerate)
  have nth: "\<forall>i<length fs. ?fs' ! i = (if fn_file (fs ! i) = sf \<and> i \<noteq> si then stripName (fs ! i) else fs ! i)"
    by (simp add: nth_enumerate_eq wrapperSlot_def)
  have set: "set ?refs = {(k, i) | i. i < length fs \<and> fn_file (fs ! i) = sf \<and> i \<noteq> si}"
    by (auto simp: in_set_enumerate_eq wrapperSlot_def image_iff)
  have "distinct (map fst (filter ?W (enumerate 0 fs)))"
    by (rule distinct_map_filter) simp
  then have "distinct (map ((\<lambda>j. (k, j)) \<circ> fst) (filter ?W (enumerate 0 fs)))"
    unfolding map_comp_map [symmetric] o_apply
    by (simp add: distinct_map inj_on_def)
  then have dist: "distinct ?refs" by (simp add: comp_def)
  from res nth set dist show ?thesis by simp
qed

lemma resolveMPIDebugInfo_props:
  assumes sig: "lookupFunc d MPI_FUNCS_SIGNATURE = Some (k, si)"
    and names: "\<forall>i<length (m_functions (modules d ! k)).
        fn_file (m_functions (modules d ! k) ! i) = fn_file (m_functions (modules d ! k) ! si) \<and> i \<noteq> si
        \<longrightarrow> fn_name (m_functions (modules d ! k) ! i) \<noteq> []"
  shows "\<exists>d' m. resolveMPIDebugInfo d = Inr (d', m)
     \<and> set (mpi_functions m) =
         {(k, i) | i. i < length (m_functions (modules d ! k))
            \<and> fn_file (m_functions (modules d ! k) ! i) = fn_file (m_functions (modules d ! k) ! si)
            \<and> i \<noteq> si}
     \<and> distinct (mpi_functions m)
     \<and> (\<forall>r\<in>set (mpi_functions m). \<exists>f. funcAt d r = Some f \<and> funcAt d' r = Some (stripName f)
           \<and> filesAt (modules d ! k) (fn_file f) = mpi_file m)
     \<and> (\<forall>r. r \<notin> set (mpi_functions m) \<longrightarrow> funcAt d' r = funcAt d r)
     \<and> mpi_file m = filesAt (modules d ! k) (fn_file (m_functions (modules d ! k) ! si))"
proof -
  define fs where "fs = m_functions (modules d ! k)"
  define sf where "sf = fn_file (fs ! si)"
  from lookupFunc_Some [OF sig] have k: "k < length (modules d)" by simp
  from names have "\<forall>i<length fs. fn_file (fs ! i) = sf \<and> i \<noteq> si \<longrightarrow> fn_name (fs ! i) \<noteq> []"
    by (simp add: fs_def sf_def)
  from stripWrappers_result [OF this, of k] obtain fs' refs where
    res: "stripWrappers sf si k fs 0 = Inr (fs', refs)"
    and len: "length fs' = length fs"
    and nth: "\<forall>i<length fs. fs' ! i = (if fn_file (fs ! i) = sf \<and> i \<noteq> si then stripName (fs ! i) else fs ! i)"
    and refs: "set refs = {(k, i) | i. i < length fs \<and> fn_file (fs ! i) = sf \<and> i \<noteq> si}"
    and dist: "distinct refs"
    by blast
  define d' where "d' = updModule d k (\<lambda>m. m\<lparr>m_functions := fs'\<rparr>)"
  define m where "m = \<lparr>mpi_functions = refs, mpi_file = filesAt (modules d ! k) sf\<rparr>"
  have r: "resolveMPIDebugInfo d = Inr (d', m)"
    using sig res by (simp add: resolveMPIDebugInfo_def Let_def bindE_def fs_def sf_def d'_def m_def)
  have at_k: "funcAt d' (k, i) = (if i < length fs then Some (fs' ! i) else None)" for i
    using k len by (simp add: funcAt_def d'_def updModule_def)
  have at_other: "funcAt d' (k', i) = funcAt d (k', i)" if "k' \<noteq> k" for k' i
    using that by (simp add: funcAt_def d'_def updModule_def)
  have at_d: "funcAt d (k, i) = (if i < length fs then Some (fs ! i) else None)" for i
    using k by (simp add: funcAt_def fs_def)
  have listed: "\<exists>f. funcAt d r = Some f \<and> funcAt d' r = Some (stripName f)
      \<and> filesAt (modules d ! k) (fn_file f) = mpi_file m" if "r \<in> set refs" for r
    using that nth by (auto simp: refs at_k at_d m_def)
  have unlisted: "funcAt d' r = funcAt d r" if "r \<notin> set refs" for r
  proof (cases r)
    case (Pair k' i)
    show ?thesis
    proof (cases "k' = k")
      case False
      with Pair show ?thesis by (simp add: at_other)
    next
      case True
      with Pair that nth show ?thesis by (auto simp: refs at_k at_d)
    qed
  qed
  from r refs dist listed unlisted show ?thesis
    unfolding fs_def [symmetric] sf_def [symmetric]
    by (intro exI [of _ d'] exI [of _ m]) (simp add: m_def)
qed

text \<open>
  Claim C2, amended. When \<open>lookupFunc\<close> finds the signature function in slot \<open>si\<close> of
  module \<open>k\<close>, and no function selected has an empty name, \<open>resolveMPIDebugInfo\<close> returns;
  the functions it returns are exactly those of module \<open>k\<close>, the signature function's
  module, whose file id equals the signature function's, the signature function itself
  excluded, each once; in the index each of them has lost the first byte of its name and
  nothing else, every other function is as it was (those of other modules too, whatever
  their source file); and the \<open>file\<close> field is the path of the signature function's file
  id in module \<open>k\<close>, which is the path of every function returned.
\<close>

theorem resolveMPIDebugInfo_wrapper_set:
  assumes sig: "lookupFunc d MPI_FUNCS_SIGNATURE = Some (k, si)"
    and names: "\<forall>i<length (m_functions (modules d ! k)).
        fn_file (m_functions (modules d ! k) ! i) = fn_file (m_functions (modules d ! k) ! si) \<and> i \<noteq> si
        \<longrightarrow> fn_name (m_functions (modules d ! k) ! i) \<noteq> []"
  shows "\<exists>d' m. resolveMPIDebugInfo d = Inr (d', m)
     \<and> set (mpi_functions m) =
         {(k, i) | i. i < length (m_functions (modules d ! k))
            \<and> fn_file (m_functions (modules d ! k) ! i) = fn_file (m_functions (modules d ! k) ! si)
            \<and> i \<noteq> si}
     \<and> distinct (mpi_functions m)
     \<and> (\<forall>r\<in>set (mpi_functions m). \<exists>f. funcAt d r = Some f \<and> funcAt d' r = Some (stripName f)
           \<and> filesAt (modules d ! k) (fn_file f) = mpi_file m)
     \<and> (\<forall>r. r \<notin> set (mpi_functions m) \<longrightarrow> funcAt d' r = funcAt d r)
     \<and> mpi_file m = filesAt (modules d ! k) (fn_file (m_functions (modules d ! k) ! si))"
  using sig names by (rule resolveMPIDebugInfo_props)

lemmas example_defs =
  rawRow_def rawUnit_def rawSubprogram_def namedModule_def declFunc_def exIndex_def
  exModule_def exEntry_def exFunc_def

lemmas parse_defs =
  initialState_def parseEntry_def parseModule_def parseFunction_def bindE_def asString_def
  asInt64_def zeroFunc_def updModule_def

lemma helloInput_parsed:
  "parseEntries initialState helloInput =
     Inr \<lparr>data = helloParsed, currentModule = Some 0, currentFunction = Some (0, 2)\<rparr>"
  by (simp add: helloInput_def helloParsed_def example_defs parse_defs)

lemma helloParsed_resolved:
  "resolveMPIDebugInfo helloParsed =
     Inr (helloIndex\<lparr>mpi := \<lparr>mpi_functions = [], mpi_file = []\<rparr>\<rparr>, mpi helloIndex)"
  by (simp add: helloParsed_def helloIndex_def example_defs resolveMPIDebugInfo_def
      lookupFunc_def MPI_FUNCS_SIGNATURE_def filesAt_def bindE_def updModule_def)

lemma helloInput_index: "getDwarfData helloInput = Inr helloIndex"
  by (simp add: getDwarfData_def helloInput_parsed helloParsed_resolved bindE_def helloIndex_def)

lemma twoUnitInput_index: "getDwarfData twoUnitInput = Inr twoUnitIndex"
  by (simp add: getDwarfData_def twoUnitInput_def twoUnitIndex_def example_defs parse_defs
      resolveMPIDebugInfo_def lookupFunc_def MPI_FUNCS_SIGNATURE_def filesAt_def)

theorem resolveMPIDebugInfo_wrapper_set_witness:
  "lookupFunc helloParsed MPI_FUNCS_SIGNATURE = Some (0, 0)
   \<and> list_all (\<lambda>f. fn_name f \<noteq> []) (m_functions (modules helloParsed ! 0))
   \<and> resolveMPIDebugInfo helloParsed =
       Inr (helloIndex\<lparr>mpi := \<lparr>mpi_functions = [], mpi_file = []\<rparr>\<rparr>,
            \<lparr>mpi_functions = [(0, 1)], mpi_file = ''mpi_wrap.h''\<rparr>)
   \<and> funcAt helloParsed (0, 1) = Some (declFunc ''_MPI_Send'' 2 39 0x1010 0x1040)
   \<and> funcAt helloIndex (0, 1) = Some (stripName (declFunc ''_MPI_Send'' 2 39 0x1010 0x1040))"
proof -
  have sig: "lookupFunc helloParsed MPI_FUNCS_SIGNATURE = Some (0, 0)"
    by (simp add: helloParsed_def example_defs lookupFunc_def MPI_FUNCS_SIGNATURE_def)
  have names: "\<forall>i<length (m_functions (modules helloParsed ! 0)).
        fn_file (m_functions (modules helloParsed ! 0) ! i)
          = fn_file (m_functions (modules helloParsed ! 0) ! 0) \<and> i \<noteq> 0
        \<longrightarrow> fn_name (m_functions (modules helloParsed ! 0) ! i) \<noteq> []"
    by (simp add: helloParsed_def example_defs nth_Cons')
  have rest: "list_all (\<lambda>f. fn_name f \<noteq> []) (m_functions (modules helloParsed ! 0))"
    "funcAt helloParsed (0, 1) = Some (declFunc ''_MPI_Send'' 2 39 0x1010 0x1040)"
    "funcAt helloIndex (0, 1) = Some (stripName (declFunc ''_MPI_Send'' 2 39 0x1010 0x1040))"
    by (simp_all add: helloParsed_def helloIndex_def example_defs funcAt_def stripName_def)
  from resolveMPIDebugInfo_wrapper_set [OF sig names] sig rest show ?thesis
    by (simp add: helloParsed_resolved helloIndex_def)
qed

text \<open>
  Claim C2 fails when a second compile unit has functions of the same source file. In
  \<open>twoUnitInput\<close> both units include \<open>mpi_wrap.h\<close>. \<open>lookupFunc\<close> finds the signature
  function in the first unit, and only that unit's functions are visited: the \<open>_MPI_Send\<close>
  of the second unit, whose source file is the signature function's source file, is not
  returned and keeps its name.
\<close>

theorem wrapper_set_one_module_counterexample:
  "getDwarfData twoUnitInput = Inr twoUnitIndex
   \<and> lookupFunc twoUnitIndex MPI_FUNCS_SIGNATURE = Some (0, 0)
   \<and> mpi_functions (mpi twoUnitIndex) = [(0, 1)]
   \<and> mpi_file (mpi twoUnitIndex) = ''mpi_wrap.h''
   \<and> funcAt twoUnitIndex (1, 1) = Some (declFunc ''_MPI_Send'' 2 39 0x2010 0x2040)
   \<and> filesAt (modules twoUnitIndex ! 1) (fn_file (declFunc ''_MPI_Send'' 2 39 0x2010 0x2040))
       = ''mpi_wrap.h''
   \<and> (1, 1) \<notin> set (mpi_functions (mpi twoUnitIndex))"
  by (simp add: twoUnitInput_index)
     (simp add: twoUnitIndex_def example_defs lookupFunc_def MPI_FUNCS_SIGNATURE_def funcAt_def
        filesAt_def)

lemma resolveMPIDebugInfo_Inr:
  assumes "resolveMPIDebugInfo d = Inr (d', m)"
  shows "\<exists>k si. lookupFunc d MPI_FUNCS_SIGNATURE = Some (k, si)
     \<and> (\<forall>i<length (m_functions (modules d ! k)).
        fn_file (m_functions (modules d ! k) ! i) = fn_file (m_functions (modules d ! k) ! si) \<and> i \<noteq> si
        \<longrightarrow> fn_name (m_functions (modules d ! k) ! i) \<noteq> [])"
proof (cases "lookupFunc d MPI_FUNCS_SIGNATURE")
  case None
  with assms show ?thesis by (simp add: resolveMPIDebugInfo_def)
next
  case (Some r)
  obtain k si where r: "r = (k, si)" by (cases r)
  define fs where "fs = m_functions (modules d ! k)"
  define sf where "sf = fn_file (fs ! si)"
  have "\<exists>x. stripWrappers sf si k fs 0 = Inr x"
    using assms Some r
    by (cases "stripWrappers sf si k fs 0")
       (simp_all add: resolveMPIDebugInfo_def Let_def bindE_def fs_def sf_def)
  then have no: "\<not> list_ex (\<lambda>jf. wrapperSlot sf si jf \<and> fn_name (snd jf) = []) (enumerate 0 fs)"
    by (auto simp: stripWrappers_enumerate split: if_splits)
  have "\<forall>i<length fs. fn_file (fs ! i) = sf \<and> i \<noteq> si \<longrightarrow> fn_name (fs ! i) \<noteq> []"
  proof (intro allI impI)
    fix i assume i: "i < length fs" and w: "fn_file (fs ! i) = sf \<and> i \<noteq> si"
    have "(i, fs ! i) \<in> set (enumerate 0 fs)"
      using i by (simp add: in_set_enumerate_eq)
    with no w show "fn_name (fs ! i) \<noteq> []"
      by (auto simp: list_ex_iff wrapperSlot_def)
  qed
  then show ?thesis using Some r by (simp add: fs_def sf_def)
qed

lemma getDwarfData_Inr:
  assumes "getDwarfData raw = Inr d"
  shows "\<exists>st d'. parseEntries initialState raw = Inr st
     \<and> resolveMPIDebugInfo (data st) = Inr (d', mpi d) \<and> d = d'\<lparr>mpi := mpi d\<rparr>"
proof -
  from assms obtain st where st: "parseEntries initialState raw = Inr st"
    by (cases "parseEntries initialState raw") (simp_all add: getDwarfData_def bindE_def)
  with assms obtain d' m where res: "resolveMPIDebugInfo (data st) = Inr (d', m)"
    by (cases "resolveMPIDebugInfo (data st)") (auto simp: getDwarfData_def bindE_def)
  with assms st have "d = d'\<lparr>mpi := m\<rparr>"
    by (simp add: getDwarfData_def bindE_def)
  with st res show ?thesis by auto
qed

lemma funcAt_mpi_update [simp]: "funcAt (d\<lparr>mpi := m\<rparr>) r = funcAt d r"
  by (simp add: funcAt_def)

lemma lookupFunc_mpi_update [simp]: "lookupFunc (d\<lparr>mpi := m\<rparr>) n = lookupFunc d n"
  by (simp add: lookupFunc_def)




lemma bindE_Inr:
  "bindE r f = Inr y \<longleftrightarrow> (\<exists>x. r = Inr x \<and> f x = Inr y)"
  by (cases r) (simp_all add: bindE_def)

lemma functionFields_core:
  "functionFields fs f = Inr f' \<Longrightarrow>
     lowPC f' = lowPC f \<and> highPC f' = highPC f
     \<and> (case rawDeclLine fs of None \<Rightarrow> fn_line f' = fn_line f | Some w \<Rightarrow> fn_line f' = w - 1)"
proof (induction fs arbitrary: f)
  case Nil
  then show ?case by simp
next
  case (Cons av fs)
  obtain a v where av: "av = (a, v)" by (cases av)
  from Cons.prems av obtain f1 where step: "functionFields fs f1 = Inr f'"
    and pc: "lowPC f1 = lowPC f" "highPC f1 = highPC f"
    and ln: "if a = AttrDeclLine then (\<exists>w. v = VInt64 w \<and> fn_line f1 = w - 1)
             else fn_line f1 = fn_line f"
    by (auto simp: bindE_Inr asString_def asInt64_def split: if_splits val.splits)
  from Cons.IH [OF step] pc ln av show ?case
    by (auto split: option.splits if_splits)
qed

lemma parseFunction_Inr:
  assumes "parseFunction e = Inr f"
  shows "declLineAdjusted f e \<and> parameters f = []
     \<and> firstRange e = Some (lowPC f, highPC f)"
proof -
  from assms obtain f0 ranges where f0: "functionFields (Field e) zeroFunc = Inr f0"
    and rgs: "Ranges e = Inr ranges"
    and c: "(case ranges of [] \<Rightarrow> Inl IndexOutOfRange
             | r # _ \<Rightarrow> Inr (f0\<lparr>lowPC := fst r, highPC := snd r, parameters := []\<rparr>)) = Inr f"
    unfolding parseFunction_def bindE_Inr by blast
  from c obtain r rs where "ranges = r # rs"
    and f: "f = f0\<lparr>lowPC := fst r, highPC := snd r, parameters := []\<rparr>"
    by (cases ranges) auto
  with rgs have rg: "Ranges e = Inr (r # rs)" by simp
  from functionFields_core [OF f0] f rg show ?thesis
    by (auto simp: declLineAdjusted_def firstRange_def zeroFunc_def split: option.splits)
qed

lemma lineRows_Inr:
  "lineRows idx rows = Inr es \<Longrightarrow>
     list_all2 (\<lambda>en le. rowLineAdjusted en le \<and> address en = le_Address le
        \<and> isStmt en = le_IsStmt le
        \<and> (\<exists>n. le_File le = Some n \<and> e_file en = (case idx n of None \<Rightarrow> 0 | Some k \<Rightarrow> k)))
       es rows"
proof (induction rows arbitrary: es)
  case Nil
  then show ?case by simp
next
  case (Cons le rows)
  from Cons.prems obtain n es' where "le_File le = Some n" "lineRows idx rows = Inr es'"
    and "es = \<lparr>address = le_Address le,
               e_file = (case idx n of None \<Rightarrow> 0 | Some k \<Rightarrow> k),
               line = le_Line le - 1, col = le_Column le, prologueEnd = le_PrologueEnd le,
               epilogueBegin = le_EpilogueBegin le, isStmt = le_IsStmt le\<rparr> # es'"
    by (auto simp: bindE_Inr split: option.splits)
  with Cons.IH [of es'] show ?case
    by (simp add: rowLineAdjusted_def)
qed

text \<open>When the loop over the file table ends, every name it has seen is a key of
  \<open>moduleFileIndexMap\<close>, and the id stored for a name is a key of \<open>module.files\<close>.\<close>

lemma fileTable_inv:
  "fileTable fs i (F, I) = (F', I') \<Longrightarrow>
   \<forall>n k. I n = Some k \<longrightarrow> F k = Some n \<and> k < int i \<Longrightarrow>
   (\<forall>n k. I' n = Some k \<longrightarrow> F' k = Some n) \<and> (\<forall>n. Some n \<in> set fs \<longrightarrow> n \<in> dom I')
     \<and> dom I \<subseteq> dom I'"
proof (induction fs arbitrary: i F I)
  case Nil
  then show ?case by auto
next
  case (Cons x fs)
  show ?case
  proof (cases x)
    case None
    have inv: "\<forall>n k. I n = Some k \<longrightarrow> F k = Some n \<and> k < int (Suc i)"
    proof (intro allI impI)
      fix n k assume "I n = Some k"
      with Cons.prems(2) have "F k = Some n \<and> k < int i" by blast
      then show "F k = Some n \<and> k < int (Suc i)" by simp
    qed
    from Cons.prems(1) None have run: "fileTable fs (Suc i) (F, I) = (F', I')" by simp
    from Cons.IH [OF run inv] None show ?thesis by auto
  next
    case (Some n)
    let ?F = "F(int i \<mapsto> n)"
    let ?I = "I(n \<mapsto> int i)"
    have inv: "\<forall>n' k. ?I n' = Some k \<longrightarrow> ?F k = Some n' \<and> k < int (Suc i)"
    proof (intro allI impI)
      fix n' k assume h: "?I n' = Some k"
      show "?F k = Some n' \<and> k < int (Suc i)"
      proof (cases "n' = n")
        case True
        with h show ?thesis by simp
      next
        case False
        with h have "I n' = Some k" by simp
        with Cons.prems(2) have "F k = Some n' \<and> k < int i" by blast
        then show ?thesis by auto
      qed
    qed
    from Cons.prems(1) Some have run: "fileTable fs (Suc i) (?F, ?I) = (F', I')" by simp
    note ihc = Cons.IH [OF run inv]
    from ihc have ih1: "\<forall>n k. I' n = Some k \<longrightarrow> F' k = Some n"
      by (rule conjunct1)
    from ihc have ih2: "\<forall>n. Some n \<in> set fs \<longrightarrow> n \<in> dom I'"
      by (rule conjunct2 [THEN conjunct1])
    from ihc have ih3: "dom ?I \<subseteq> dom I'"
      by (rule conjunct2 [THEN conjunct2])
    have "dom ?I = insert n (dom I)" by simp
    with ih3 have "n \<in> dom I'" "dom I \<subseteq> dom I'" by blast+
    with ih1 ih2 Some show ?thesis by auto
  qed
qed

lemma parseModule_Inr:
  assumes "parseModule e = Inr m"
  shows "m_functions m = [] \<and> variables m = []
     \<and> firstRange e = Some (startAddress m, endAddress m)
     \<and> list_all2 rowLineAdjusted (entries m) (rawRows e)
     \<and> ((\<forall>le\<in>set (rawRows e). le_File le \<in> set (rawFiles e)) \<longrightarrow>
          (\<forall>en\<in>set (entries m). e_file en \<in> dom (files m)))"
proof -
  let ?body = "\<lambda>n r lr. (let (mfiles, idx) = fileTable (lr_Files lr) 0 (Map.empty, Map.empty)
         in bindE (lineRows idx (lr_rows lr)) (\<lambda>dEntries.
              Inr \<lparr>m_name = n, startAddress = fst r, endAddress = snd r,
                   entries = dEntries, files = mfiles, m_functions = [],
                   variables = []\<rparr>))"
  from assms obtain n ranges where rgs: "Ranges e = Inr ranges"
    and c1: "(case ranges of [] \<Rightarrow> Inl IndexOutOfRange
              | r # _ \<Rightarrow> bindE (LineReader e) (\<lambda>reader.
                  case reader of None \<Rightarrow> Inl NilDereference
                  | Some lr \<Rightarrow> ?body n r lr)) = Inr m"
    unfolding parseModule_def bindE_Inr by blast
  from c1 obtain r rs where rr: "ranges = r # rs"
    and c2: "bindE (LineReader e) (\<lambda>reader.
                  case reader of None \<Rightarrow> Inl NilDereference
                  | Some lr \<Rightarrow> ?body n r lr) = Inr m"
    by (cases ranges) auto
  from c2 obtain reader where rd: "LineReader e = Inr reader"
    and c3: "(case reader of None \<Rightarrow> Inl NilDereference | Some lr \<Rightarrow> ?body n r lr) = Inr m"
    unfolding bindE_Inr by blast
  from c3 obtain lr where "reader = Some lr" and body: "?body n r lr = Inr m"
    by (cases reader) auto
  with rd rgs rr have rg: "Ranges e = Inr (r # rs)" and lr: "LineReader e = Inr (Some lr)"
    by simp_all
  obtain F I where ft: "fileTable (lr_Files lr) 0 (Map.empty, Map.empty) = (F, I)"
    by (cases "fileTable (lr_Files lr) 0 (Map.empty, Map.empty)")
  with body obtain es where rows: "lineRows I (lr_rows lr) = Inr es"
    and m: "m = \<lparr>m_name = n, startAddress = fst r, endAddress = snd r,
                 entries = es, files = F, m_functions = [], variables = []\<rparr>"
    by (auto simp: bindE_Inr)
  from fileTable_inv [OF ft] have keys0: "(\<forall>n k. I n = Some k \<longrightarrow> F k = Some n) \<and> (\<forall>n. Some n \<in> set (lr_Files lr) \<longrightarrow> n \<in> dom I)"
    by simp
  then have keys: "\<forall>n k. I n = Some k \<longrightarrow> F k = Some n"
    and seen: "\<forall>n. Some n \<in> set (lr_Files lr) \<longrightarrow> n \<in> dom I"
    by auto
  note all = lineRows_Inr [OF rows]
  have lines: "list_all2 rowLineAdjusted es (lr_rows lr)"
    using all by (rule list_all2_mono) simp
  have listed: "\<forall>en\<in>set es. e_file en \<in> dom F"
    if h: "\<forall>le\<in>set (lr_rows lr). le_File le \<in> set (lr_Files lr)"
  proof
    fix en assume "en \<in> set es"
    then obtain j where j: "j < length es" "en = es ! j"
      by (auto simp: in_set_conv_nth)
    define le where "le = lr_rows lr ! j"
    from all j have len: "j < length (lr_rows lr)"
      by (simp add: list_all2_lengthD)
    then have le: "le \<in> set (lr_rows lr)" by (simp add: le_def)
    from list_all2_nthD [OF all j(1)] j(2) obtain n' where n': "le_File le = Some n'"
      "e_file en = (case I n' of None \<Rightarrow> 0 | Some k \<Rightarrow> k)"
      by (auto simp: le_def)
    from h le n'(1) seen obtain k where "I n' = Some k" by force
    with keys n'(2) show "e_file en \<in> dom F" by auto
  qed
  from rg lr m lines listed show ?thesis
    by (simp add: firstRange_def rawRows_def rawFiles_def)
qed

lemma word_less_le_pred: "a < hi \<Longrightarrow> a \<le> hi - 1" for a hi :: "'a::len word"
  by unat_arith

lemma word_pred_less: "lo < hi \<Longrightarrow> hi - 1 < hi" for lo hi :: "'a::len word"
  by unat_arith

lemma rangeInside_iff:
  "rangeInside (lo, hi) (s, e) \<longleftrightarrow> (\<forall>a. lo \<le> a \<and> a < hi \<longrightarrow> s \<le> a \<and> a \<le> e)"
proof
  assume h: "rangeInside (lo, hi) (s, e)"
  show "\<forall>a. lo \<le> a \<and> a < hi \<longrightarrow> s \<le> a \<and> a \<le> e"
  proof (intro allI impI)
    fix a assume a: "lo \<le> a \<and> a < hi"
    then have "lo < hi" by auto
    with h have "s \<le> lo" "hi - 1 \<le> e" by (simp_all add: rangeInside_def)
    moreover from a have "a \<le> hi - 1" by (simp add: word_less_le_pred)
    ultimately show "s \<le> a \<and> a \<le> e" using a by auto
  qed
next
  assume h: "\<forall>a. lo \<le> a \<and> a < hi \<longrightarrow> s \<le> a \<and> a \<le> e"
  have "s \<le> lo \<and> hi - 1 \<le> e" if lt: "lo < hi"
  proof -
    from lt h have "s \<le> lo" by auto
    moreover from lt have "hi - 1 < hi" by (rule word_pred_less)
    moreover from lt have "lo \<le> hi - 1" by (rule word_less_le_pred)
    ultimately show ?thesis using h by blast
  qed
  then show "rangeInside (lo, hi) (s, e)"
    by (simp add: rangeInside_def)
qed

lemma map_update_same: "f y = f (xs ! k) \<Longrightarrow> map f (xs[k := y]) = map f xs"
  by (induction xs arbitrary: k) (simp_all split: nat.split)

lemma last_update: "Suc k = length ms \<Longrightarrow> ms[k := y] = butlast ms @ [y]"
  by (cases ms rule: rev_cases) simp_all

lemma last_nth: "Suc k = length ms \<Longrightarrow> ms = butlast ms @ [ms ! k]"
  by (cases ms rule: rev_cases) simp_all

lemma moduleCore_simps [simp]:
  "startAddress (moduleCore m) = startAddress m" "endAddress (moduleCore m) = endAddress m"
  "entries (moduleCore m) = entries m" "files (moduleCore m) = files m"
  "moduleCore (m\<lparr>m_functions := fs\<rparr>) = moduleCore m"
  "moduleCore (m\<lparr>variables := vs\<rparr>) = moduleCore m"
  by (simp_all add: moduleCore_def)

lemma funcCore_simps [simp]:
  "lowPC (funcCore f) = lowPC f" "highPC (funcCore f) = highPC f"
  "fn_line (funcCore f) = fn_line f"
  "funcCore (f\<lparr>parameters := ps\<rparr>) = funcCore f"
  "funcCore (f\<lparr>fn_name := n\<rparr>) = funcCore f"
  by (simp_all add: funcCore_def)

lemma shape_length [simp]: "length (shape d) = length (modules d)"
  by (simp add: shape_def)

lemma step_unit:
  assumes "parseEntry st e = Inr st'" and "isUnit e"
  shows "\<exists>m0. parseModule e = Inr m0
     \<and> modules (data st') = modules (data st) @ [m0]
     \<and> currentModule st' = Some (length (modules (data st)))"
  using assms by (auto simp: parseEntry_def isUnit_def bindE_Inr)

lemma step_sub:
  assumes "parseEntry st e = Inr st'" and "isSubprogram e"
  shows "\<exists>f k. parseFunction e = Inr f \<and> currentModule st = Some k
     \<and> modules (data st') = (modules (data st))
          [k := (modules (data st) ! k)\<lparr>m_functions := m_functions (modules (data st) ! k) @ [f]\<rparr>]
     \<and> currentModule st' = Some k"
  using assms
  by (auto simp: parseEntry_def isSubprogram_def bindE_Inr updModule_def split: option.splits)

lemma step_other:
  assumes "parseEntry st e = Inr st'" and "\<not> isUnit e" and "\<not> isSubprogram e"
  shows "shape (data st') = shape (data st) \<and> currentModule st' = currentModule st"
proof (cases "Tag e")
  case TagBaseType
  with assms(1) show ?thesis
    by (auto simp: parseEntry_def bindE_Inr shape_def)
next
  case TagCompileUnit
  with assms(2) show ?thesis by (simp add: isUnit_def)
next
  case TagSubprogram
  with assms(3) show ?thesis by (simp add: isSubprogram_def)
next
  case TagFormalParameter
  with assms(1) obtain p r where cf: "currentFunction st = Some r"
    and st': "st' = st\<lparr>data := updFunc (data st) r (\<lambda>f. f\<lparr>parameters := parameters f @ [p]\<rparr>)\<rparr>"
    by (auto simp: parseEntry_def bindE_Inr split: option.splits)
  have "shape (updFunc d r (\<lambda>f. f\<lparr>parameters := parameters f @ [p]\<rparr>)) = shape d" for d
    unfolding shape_def updFunc_def updModule_def
    by (simp add: map_update_same)
  with st' show ?thesis by simp
next
  case TagVariable
  with assms(1) obtain k v where st': "st' = st\<lparr>data := updModule (data st) k
      (\<lambda>m. m\<lparr>variables := variables m @ [v]\<rparr>)\<rparr>"
    by (auto simp: parseEntry_def bindE_Inr split: option.splits if_splits)
  have "shape (updModule d k (\<lambda>m. m\<lparr>variables := variables m @ [v]\<rparr>)) = shape d" for d
    unfolding shape_def updModule_def
    by (simp add: map_update_same)
  with st' show ?thesis by simp
next
  case TagOther
  with assms(1) show ?thesis by (simp add: parseEntry_def)
qed

lemma moduleCore_parsed:
  assumes "parseModule e = Inr m0"
  shows "moduleCore m0 = m0"
proof -
  from parseModule_Inr [OF assms] have "m_functions m0 = []" "variables m0 = []" by simp_all
  then show ?thesis by (cases m0) (simp add: moduleCore_def)
qed

lemma step_unit_shape:
  assumes "parseEntry st e = Inr st'" and "isUnit e"
  shows "\<exists>m0. parseModule e = Inr m0
     \<and> shape (data st') = shape (data st) @ [(m0, [])]
     \<and> currentModule st' = Some (length (modules (data st)))
     \<and> curOK st'"
proof -
  from step_unit [OF assms] obtain m0 where m0: "parseModule e = Inr m0"
    and ms: "modules (data st') = modules (data st) @ [m0]"
    and cm: "currentModule st' = Some (length (modules (data st)))"
    by blast
  from parseModule_Inr [OF m0] have "m_functions m0 = []" by simp
  with ms moduleCore_parsed [OF m0] have "shape (data st') = shape (data st) @ [(m0, [])]"
    by (simp add: shape_def)
  with m0 ms cm show ?thesis by (auto simp: curOK_def)
qed

lemma step_sub_shape:
  assumes "parseEntry st e = Inr st'" and "isSubprogram e" and "curOK st"
  shows "\<exists>f k S c fcs. parseFunction e = Inr f \<and> currentModule st = Some k
     \<and> shape (data st) = S @ [(c, fcs)]
     \<and> shape (data st') = S @ [(c, fcs @ [funcCore f])]
     \<and> c = moduleCore (modules (data st) ! k)
     \<and> currentModule st' = Some k \<and> curOK st'
     \<and> moduleCore (modules (data st') ! k) = c"
proof -
  let ?ms = "modules (data st)"
  from step_sub [OF assms(1,2)] obtain f k where f: "parseFunction e = Inr f"
    and k: "currentModule st = Some k"
    and ms: "modules (data st') = ?ms[k := (?ms ! k)\<lparr>m_functions := m_functions (?ms ! k) @ [f]\<rparr>]"
    and cm: "currentModule st' = Some k"
    by blast
  from assms(3) k have len: "Suc k = length ?ms" by (simp add: curOK_def)
  define c where "c = moduleCore (?ms ! k)"
  define fcs where "fcs = map funcCore (m_functions (?ms ! k))"
  define S where "S = butlast (shape (data st))"
  from len have len': "Suc k = length (shape (data st))" by simp
  have kth: "shape (data st) ! k = (c, fcs)"
    using len by (simp add: shape_def c_def fcs_def)
  from last_nth [OF len'] kth have s0: "shape (data st) = S @ [(c, fcs)]"
    by (simp add: S_def)
  have "shape (data st') = (shape (data st))[k := (c, fcs @ [funcCore f])]"
    by (simp add: shape_def ms map_update c_def fcs_def)
  with last_update [OF len'] have s1: "shape (data st') = S @ [(c, fcs @ [funcCore f])]"
    by (simp add: S_def)
  have ok: "curOK st'" using cm len ms by (simp add: curOK_def)
  have "moduleCore (modules (data st') ! k) = c"
    using len by (simp add: ms c_def)
  with f k s0 s1 cm ok show ?thesis
    unfolding c_def by blast
qed

lemma step_other_shape:
  assumes "parseEntry st e = Inr st'" and "\<not> isUnit e" and "\<not> isSubprogram e" and "curOK st"
  shows "shape (data st') = shape (data st) \<and> currentModule st' = currentModule st \<and> curOK st'"
proof -
  from step_other [OF assms(1-3)] have s: "shape (data st') = shape (data st)"
    and c: "currentModule st' = currentModule st"
    by simp_all
  from s have "length (modules (data st')) = length (modules (data st))"
    by (metis shape_length)
  with c assms(4) have "curOK st'" by (simp add: curOK_def split: option.splits)
  with s c show ?thesis by simp
qed

lemma parseEntries_shape:
  assumes "parseEntries st raw = Inr st'" and "curOK st"
    and "list_all2 (\<lambda>c cu. parseModule cu = Inr c) (map fst (shape (data st))) us"
    and "list_all2 (\<lambda>c sp. \<exists>f0. parseFunction sp = Inr f0 \<and> c = funcCore f0)
           (concat (map snd (shape (data st)))) ss"
  shows "curOK st'
     \<and> list_all2 (\<lambda>c cu. parseModule cu = Inr c) (map fst (shape (data st')))
         (us @ filter isUnit raw)
     \<and> list_all2 (\<lambda>c sp. \<exists>f0. parseFunction sp = Inr f0 \<and> c = funcCore f0)
         (concat (map snd (shape (data st')))) (ss @ filter isSubprogram raw)"
  using assms
proof (induction raw arbitrary: st us ss)
  case Nil
  then show ?case by simp
next
  case (Cons e es)
  from Cons.prems(1) obtain st1 where e: "parseEntry st e = Inr st1"
    and es: "parseEntries st1 es = Inr st'"
    by (auto simp: bindE_Inr)
  show ?case
  proof (cases "isUnit e")
    case True
    then have nsub: "\<not> isSubprogram e" by (simp add: isUnit_def isSubprogram_def)
    from step_unit_shape [OF e True] obtain m0 where m0: "parseModule e = Inr m0"
      and s1: "shape (data st1) = shape (data st) @ [(m0, [])]" and ok: "curOK st1"
      by blast
    have u: "list_all2 (\<lambda>c cu. parseModule cu = Inr c) (map fst (shape (data st1))) (us @ [e])"
      using Cons.prems(3) m0 by (simp add: s1 list_all2_appendI)
    have f: "list_all2 (\<lambda>c sp. \<exists>f0. parseFunction sp = Inr f0 \<and> c = funcCore f0)
           (concat (map snd (shape (data st1)))) ss"
      using Cons.prems(4) by (simp add: s1)
    from Cons.IH [OF es ok u f] True nsub show ?thesis by simp
  next
    case False
    show ?thesis
    proof (cases "isSubprogram e")
      case True
      from step_sub_shape [OF e True Cons.prems(2)] obtain f S c fcs
        where pf: "parseFunction e = Inr f"
        and s0: "shape (data st) = S @ [(c, fcs)]"
        and s1: "shape (data st1) = S @ [(c, fcs @ [funcCore f])]" and ok: "curOK st1"
        by blast
      have u: "list_all2 (\<lambda>c cu. parseModule cu = Inr c) (map fst (shape (data st1))) us"
        using Cons.prems(3) by (simp add: s0 s1)
      have cc: "concat (map snd (shape (data st1)))
          = concat (map snd (shape (data st))) @ [funcCore f]"
        by (simp add: s0 s1)
      have "list_all2 (\<lambda>c sp. \<exists>f0. parseFunction sp = Inr f0 \<and> c = funcCore f0)
           [funcCore f] [e]"
        using pf by auto
      with Cons.prems(4)
      have f: "list_all2 (\<lambda>c sp. \<exists>f0. parseFunction sp = Inr f0 \<and> c = funcCore f0)
           (concat (map snd (shape (data st1)))) (ss @ [e])"
        unfolding cc by (rule list_all2_appendI)
      from Cons.IH [OF es ok u f] True False show ?thesis by simp
    next
      case nsub: False
      from step_other_shape [OF e False nsub Cons.prems(2)]
      have s1: "shape (data st1) = shape (data st)" and ok: "curOK st1" by simp_all
      from Cons.IH [OF es ok, of us ss] Cons.prems(3,4) False nsub show ?thesis
        by (simp add: s1)
    qed
  qed
qed

lemma parseEntries_ranges:
  assumes "parseEntries st raw = Inr st'" and "curOK st"
    and "rangesNested (curRange st) raw"
    and "list_all (\<lambda>(c, fcs). list_all (funcInside c) fcs) (shape (data st))"
  shows "list_all (\<lambda>(c, fcs). list_all (funcInside c) fcs) (shape (data st'))"
  using assms
proof (induction raw arbitrary: st)
  case Nil
  then show ?case by simp
next
  case (Cons e es)
  from Cons.prems(1) obtain st1 where e: "parseEntry st e = Inr st1"
    and es: "parseEntries st1 es = Inr st'"
    by (auto simp: bindE_Inr)
  show ?case
  proof (cases "isUnit e")
    case True
    from step_unit_shape [OF e True] obtain m0 where m0: "parseModule e = Inr m0"
      and s1: "shape (data st1) = shape (data st) @ [(m0, [])]"
      and cm: "currentModule st1 = Some (length (modules (data st)))" and ok: "curOK st1"
      by blast
    from step_unit [OF e True] m0 have "modules (data st1) = modules (data st) @ [m0]"
      by auto
    with cm have "curRange st1 = Some (startAddress m0, endAddress m0)"
      by (simp add: curRange_def)
    with parseModule_Inr [OF m0] have "curRange st1 = firstRange e" by simp
    with Cons.prems(3) True have nest: "rangesNested (curRange st1) es" by simp
    from Cons.prems(4) have "list_all (\<lambda>(c, fcs). list_all (funcInside c) fcs) (shape (data st1))"
      by (simp add: s1)
    from Cons.IH [OF es ok nest this] show ?thesis .
  next
    case False
    show ?thesis
    proof (cases "isSubprogram e")
      case True
      from step_sub_shape [OF e True Cons.prems(2)] obtain f k S c fcs
        where pf: "parseFunction e = Inr f" and k: "currentModule st = Some k"
        and s0: "shape (data st) = S @ [(c, fcs)]"
        and s1: "shape (data st1) = S @ [(c, fcs @ [funcCore f])]"
        and c: "c = moduleCore (modules (data st) ! k)"
        and cm: "currentModule st1 = Some k" and ok: "curOK st1"
        and c1: "moduleCore (modules (data st1) ! k) = c"
        by blast
      have cur: "curRange st = Some (startAddress c, endAddress c)"
        using k c by (simp add: curRange_def)
      have "startAddress (modules (data st1) ! k) = startAddress c"
        "endAddress (modules (data st1) ! k) = endAddress c"
        using c1 moduleCore_simps(1,2) by metis+
      with cm have "curRange st1 = Some (startAddress c, endAddress c)"
        by (simp add: curRange_def)
      with cur have cur1: "curRange st1 = curRange st" by simp
      from parseFunction_Inr [OF pf] have fr: "firstRange e = Some (lowPC f, highPC f)" by simp
      from Cons.prems(3) False True cur fr
      have inside: "rangeInside (lowPC f, highPC f) (startAddress c, endAddress c)"
        and nest: "rangesNested (curRange st) es"
        by simp_all
      from inside have "funcInside c (funcCore f)" by (simp add: funcInside_def)
      with Cons.prems(4) have "list_all (\<lambda>(c, fcs). list_all (funcInside c) fcs) (shape (data st1))"
        by (simp add: s0 s1)
      from Cons.IH [OF es ok _ this] nest cur1 show ?thesis by simp
    next
      case nsub: False
      from step_other_shape [OF e False nsub Cons.prems(2)]
      have s1: "shape (data st1) = shape (data st)"
        and cm: "currentModule st1 = currentModule st" and ok: "curOK st1"
        by simp_all
      have cur1: "curRange st1 = curRange st"
      proof (cases "currentModule st")
        case None
        with cm show ?thesis by (simp add: curRange_def)
      next
        case (Some k)
        with Cons.prems(2) have len: "k < length (modules (data st))" by (simp add: curOK_def)
        with s1 have len1: "k < length (modules (data st1))" by (metis shape_length)
        from s1 have "shape (data st1) ! k = shape (data st) ! k" by simp
        with len len1 have "moduleCore (modules (data st1) ! k) = moduleCore (modules (data st) ! k)"
          by (simp add: shape_def)
        then have "startAddress (modules (data st1) ! k) = startAddress (modules (data st) ! k)"
          "endAddress (modules (data st1) ! k) = endAddress (modules (data st) ! k)"
          using moduleCore_simps(1,2) by metis+
        with Some cm show ?thesis by (simp add: curRange_def)
      qed
      from Cons.prems(3) False nsub have nest: "rangesNested (curRange st) es" by simp
      from Cons.IH [OF es ok _ _] nest cur1 Cons.prems(4) s1 show ?thesis by simp
    qed
  qed
qed

lemma resolveMPIDebugInfo_shape:
  assumes "resolveMPIDebugInfo d = Inr (d', m)"
  shows "shape d' = shape d"
proof (cases "lookupFunc d MPI_FUNCS_SIGNATURE")
  case None
  with assms show ?thesis by (simp add: resolveMPIDebugInfo_def)
next
  case (Some r)
  obtain k si where r: "r = (k, si)" by (cases r)
  define fs where "fs = m_functions (modules d ! k)"
  define sf where "sf = fn_file (fs ! si)"
  from assms Some r obtain fs' refs where sw: "stripWrappers sf si k fs 0 = Inr (fs', refs)"
    and d': "d' = updModule d k (\<lambda>m. m\<lparr>m_functions := fs'\<rparr>)"
    by (cases "stripWrappers sf si k fs 0")
       (auto simp: resolveMPIDebugInfo_def Let_def bindE_def fs_def sf_def)
  from sw have "fs' = map (\<lambda>jf. if wrapperSlot sf si jf then stripName (snd jf) else snd jf)
      (enumerate 0 fs)"
    by (auto simp: stripWrappers_enumerate split: if_splits)
  then have "map funcCore fs' = map (funcCore \<circ> snd) (enumerate 0 fs)"
    by (simp add: stripName_def)
  also have "\<dots> = map funcCore fs"
    by (simp add: map_snd_enumerate flip: map_map)
  finally have "map funcCore fs' = map funcCore (m_functions (modules d ! k))"
    by (simp add: fs_def)
  then show ?thesis
    unfolding d' shape_def updModule_def by (simp add: map_update_same)
qed

lemma shape_mpi_update [simp]: "shape (d\<lparr>mpi := m\<rparr>) = shape d"
  by (simp add: shape_def)

lemma getDwarfData_shape:
  assumes "getDwarfData raw = Inr d"
  shows "\<exists>st. parseEntries initialState raw = Inr st \<and> shape d = shape (data st)"
proof -
  from getDwarfData_Inr [OF assms] obtain st d' where st: "parseEntries initialState raw = Inr st"
    and res: "resolveMPIDebugInfo (data st) = Inr (d', mpi d)" and d: "d = d'\<lparr>mpi := mpi d\<rparr>"
    by blast
  have "shape d = shape d'" by (subst d) simp
  with resolveMPIDebugInfo_shape [OF res] st show ?thesis by auto
qed

lemma initialState_shape [simp]:
  "shape (data initialState) = []" "curOK initialState" "curRange initialState = None"
  by (simp_all add: initialState_def shape_def curOK_def curRange_def)

lemma getDwarfData_units:
  assumes "getDwarfData raw = Inr d"
  shows "list_all2 (\<lambda>m cu. parseModule cu = Inr (moduleCore m)) (modules d) (filter isUnit raw)"
    and "list_all2 (\<lambda>f sp. \<exists>f0. parseFunction sp = Inr f0 \<and> funcCore f = funcCore f0)
           (allFuncs d) (filter isSubprogram raw)"
proof -
  from getDwarfData_shape [OF assms] obtain st where st: "parseEntries initialState raw = Inr st"
    and sh: "shape d = shape (data st)"
    by blast
  from parseEntries_shape [OF st, of "[]" "[]"]
  have u: "list_all2 (\<lambda>c cu. parseModule cu = Inr c) (map fst (shape d)) (filter isUnit raw)"
    and f: "list_all2 (\<lambda>c sp. \<exists>f0. parseFunction sp = Inr f0 \<and> c = funcCore f0)
           (concat (map snd (shape d))) (filter isSubprogram raw)"
    by (simp_all add: sh)
  have "map fst (shape d) = map moduleCore (modules d)"
    by (simp add: shape_def comp_def)
  with u show "list_all2 (\<lambda>m cu. parseModule cu = Inr (moduleCore m)) (modules d) (filter isUnit raw)"
    by (simp add: list_all2_map1)
  have "concat (map snd (shape d)) = map funcCore (allFuncs d)"
    by (simp add: shape_def allFuncs_def comp_def map_concat)
  with f show "list_all2 (\<lambda>f sp. \<exists>f0. parseFunction sp = Inr f0 \<and> funcCore f = funcCore f0)
           (allFuncs d) (filter isSubprogram raw)"
    by (simp add: list_all2_map1)
qed



lemma wfRanges_shape:
  "wfRanges d \<longleftrightarrow> list_all (\<lambda>(c, fcs). list_all (funcInside c) fcs) (shape d)"
  by (simp add: wfRanges_def shape_def list_all_iff funcInside_def)

lemma getDwarfData_wfFiles:
  assumes load: "getDwarfData raw = Inr d" and listed: "rowsListed raw"
  shows "wfFiles d"
proof -
  have "list_all (\<lambda>en. e_file en \<in> dom (files m)) (entries m)" if m: "m \<in> set (modules d)" for m
  proof -
    from m obtain j where j: "j < length (modules d)" "m = modules d ! j"
      by (auto simp: in_set_conv_nth)
    note all = getDwarfData_units(1) [OF load]
    define cu where "cu = filter isUnit raw ! j"
    from all j(1) have len: "j < length (filter isUnit raw)"
      by (simp add: list_all2_lengthD)
    from list_all2_nthD [OF all j(1)] j(2) have pm: "parseModule cu = Inr (moduleCore m)"
      by (simp add: cu_def)
    from len have "cu \<in> set (filter isUnit raw)"
      unfolding cu_def by (rule nth_mem)
    then have "cu \<in> set raw" "isUnit cu" by simp_all
    with listed have "\<forall>le\<in>set (rawRows cu). le_File le \<in> set (rawFiles cu)"
      by (simp add: rowsListed_def list_all_iff)
    with parseModule_Inr [OF pm] show ?thesis
      by (simp add: list_all_iff)
  qed
  then show ?thesis by (simp add: wfFiles_def list_all_iff)
qed

lemma getDwarfData_wfRanges:
  assumes load: "getDwarfData raw = Inr d" and nested: "rangesNested None raw"
  shows "wfRanges d"
proof -
  from getDwarfData_shape [OF load] obtain st where st: "parseEntries initialState raw = Inr st"
    and sh: "shape d = shape (data st)"
    by blast
  from parseEntries_ranges [OF st] nested
  have "list_all (\<lambda>(c, fcs). list_all (funcInside c) fcs) (shape (data st))"
    by simp
  then show ?thesis by (simp add: wfRanges_shape sh)
qed

text \<open>
  Claim C7, amended. An index that \<open>getDwarfData\<close> returns is as well formed as the debug
  information it was built from: construction takes the file of each row, the first
  range of each compile unit and the first range of each subprogram as they are and
  checks nothing. When every row of every line table names a file of its unit's file
  table, every entry's file id is a key of its module's \<open>files\<close> map; when the first range
  of every subprogram lies wholly inside the first range of the compile unit it follows,
  every function's \<open>[lowPC, highPC)\<close> lies wholly inside its module's
  \<open>[startAddress, endAddress]\<close>.
\<close>

theorem index_well_formed:
  assumes "getDwarfData raw = Inr d"
  shows "(rowsListed raw \<longrightarrow> wfFiles d) \<and> (rangesNested None raw \<longrightarrow> wfRanges d)"
  using assms getDwarfData_wfFiles getDwarfData_wfRanges by blast

theorem index_well_formed_witness:
  "getDwarfData helloInput = Inr helloIndex
   \<and> rowsListed helloInput \<and> rangesNested None helloInput
   \<and> wfFiles helloIndex \<and> wfRanges helloIndex"
proof -
  have h: "rowsListed helloInput" "rangesNested None helloInput"
    by (simp_all add: helloInput_def example_defs rowsListed_def isUnit_def isSubprogram_def
        rawRows_def rawFiles_def firstRange_def rangeInside_def)
  with index_well_formed [OF helloInput_index] helloInput_index show ?thesis by simp
qed

text \<open>
  Claim C7 fails for a compile unit with more than one range. The unit of
  \<open>multiRangeInput\<close> has the ranges \<open>[0x1000, 0x1040)\<close> and \<open>[0x2000, 0x2040)\<close>, and \<open>main\<close>
  lies in the second. \<open>parseModule\<close> keeps the first range only, so the module ends at
  0x1040 and holds a function that begins at 0x2000. The rows of the unit name files of
  its file table, and every entry's file id is a key.
\<close>

theorem function_outside_module_counterexample:
  "getDwarfData multiRangeInput = Inr multiRangeIndex
   \<and> rowsListed multiRangeInput
   \<and> wfFiles multiRangeIndex
   \<and> startAddress (modules multiRangeIndex ! 0) = 0x1000
   \<and> endAddress (modules multiRangeIndex ! 0) = 0x1040
   \<and> funcAt multiRangeIndex (0, 2) = Some (declFunc ''main'' 1 5 0x2000 0x2040)
   \<and> \<not> funcInside (modules multiRangeIndex ! 0) (declFunc ''main'' 1 5 0x2000 0x2040)
   \<and> \<not> wfRanges multiRangeIndex"
proof -
  have load: "getDwarfData multiRangeInput = Inr multiRangeIndex"
    by (simp add: getDwarfData_def multiRangeInput_def multiRangeIndex_def example_defs parse_defs
        resolveMPIDebugInfo_def lookupFunc_def MPI_FUNCS_SIGNATURE_def filesAt_def)
  have listed: "rowsListed multiRangeInput"
    by (simp add: multiRangeInput_def example_defs rowsListed_def isUnit_def rawRows_def
        rawFiles_def)
  have rest: "wfFiles multiRangeIndex"
    "startAddress (modules multiRangeIndex ! 0) = 0x1000"
    "endAddress (modules multiRangeIndex ! 0) = 0x1040"
    "funcAt multiRangeIndex (0, 2) = Some (declFunc ''main'' 1 5 0x2000 0x2040)"
    "\<not> funcInside (modules multiRangeIndex ! 0) (declFunc ''main'' 1 5 0x2000 0x2040)"
    "\<not> wfRanges multiRangeIndex"
    by (simp_all add: multiRangeIndex_def example_defs wfFiles_def wfRanges_def funcAt_def
        funcInside_def rangeInside_def)
  from load listed rest show ?thesis by simp
qed

text \<open>
  Claim C1 fails when two rows of a line table share an address. \<open>parseModule\<close> makes
  the module of \<open>sameAddressIndex\<close> of a unit with two statement rows at address 0x10,
  for the lines stored as 5 and 6; every entry's file id is a key of the \<open>files\<close> map and
  every address lies in the module's range. The statement entry of line 6 is found by
  \<open>lineToPC\<close>, and \<open>PCToLine\<close> at its address answers with the first row at that address,
  which is line 5.
\<close>

theorem roundtrip_same_address_counterexample:
  "parseModule sameAddressUnit = Inr (hd (modules sameAddressIndex))
   \<and> wfFiles sameAddressIndex
   \<and> exEntry 0x10 1 6 True \<in> set (entries (hd (modules sameAddressIndex)))
   \<and> isStmt (exEntry 0x10 1 6 True)
   \<and> filesAt (hd (modules sameAddressIndex)) (e_file (exEntry 0x10 1 6 True)) = ''a.c''
   \<and> line (exEntry 0x10 1 6 True) = 6
   \<and> lineToPC sameAddressIndex ''a.c'' 6 = Inr 0x10
   \<and> PCToLine sameAddressIndex 0x10 = Inr (5, ''a.c'', None)"
proof -
  have "parseModule sameAddressUnit = Inr (hd (modules sameAddressIndex))"
    by (simp add: sameAddressUnit_def sameAddressIndex_def rawUnit_def rawRow_def exIndex_def
        exModule_def exEntry_def parseModule_def bindE_def asString_def)
  moreover have "wfFiles sameAddressIndex"
    by (simp add: sameAddressIndex_def exIndex_def exModule_def exEntry_def wfFiles_def)
  ultimately show ?thesis
    by (simp add: sameAddressIndex_def exIndex_def exModule_def exEntry_def filesAt_def
        lineToPC_def moduleLineToPC_def PCToLine_def PCToFunc_def)
qed

lemma peek_readable:
  "PtracePeekData mem a n = Some bs \<Longrightarrow> i < n \<Longrightarrow> mem (a + of_nat i) \<noteq> None"
proof (induction n arbitrary: a bs i)
  case 0
  then show ?case by simp
next
  case (Suc n)
  from Suc.prems(1) obtain b bs' where b: "mem a = Some b"
    and rest: "PtracePeekData mem (a + 1) n = Some bs'"
    by (auto split: option.splits)
  show ?case
  proof (cases i)
    case 0
    with b show ?thesis by simp
  next
    case (Suc j)
    with Suc.prems(2) have "j < n" by simp
    from Suc.IH [OF rest this] have "mem (a + 1 + of_nat j) \<noteq> None" .
    moreover have "a + 1 + of_nat j = a + of_nat (Suc j)" by simp
    ultimately show ?thesis using Suc by simp
  qed
qed

lemma step_measure:
  fixes u sp fs :: addr
  assumes u: "mem u = None" and peek: "PtracePeekData mem sp (unat fs) = Some bs"
    and pos: "fs \<noteq> 0"
  shows "unat (u - (sp + fs)) < unat (u - sp)"
proof -
  have "\<not> unat (u - sp) < unat fs"
  proof
    assume "unat (u - sp) < unat fs"
    from peek_readable [OF peek this] have "mem (sp + (u - sp)) \<noteq> None" by simp
    with u show False by simp
  qed
  then have le: "fs \<le> u - sp" by (simp add: word_le_nat_alt)
  from pos have "0 < unat fs" by (simp add: unat_gt_0)
  with le have "unat ((u - sp) - fs) < unat (u - sp)"
    by (simp add: unat_sub word_le_nat_alt)
  then show ?thesis by (simp add: diff_diff_eq)
qed

lemma walkFrame_Next:
  assumes "walkFrame d mem sp bp st = Next sp' bp' st'"
  shows "\<exists>fs bs. sp' = sp + fs \<and> fs \<noteq> 0 \<and> PtracePeekData mem sp (unat fs) = Some bs"
proof -
  define fs :: addr where "fs = (if 1024 < bp - sp + 8 \<or> bp - sp + 8 \<le> 8 then 32 else bp - sp + 8)"
  have pos: "fs \<noteq> 0" by (auto simp: fs_def)
  from assms obtain bs where "PtracePeekData mem sp (unat fs) = Some bs" and "sp' = sp + fs"
    unfolding walkFrame_def Let_def fs_def [symmetric]
    by (auto split: option.splits sum.splits if_splits)
  with pos show ?thesis by blast
qed

lemma walk_terminates:
  assumes "mem u = None"
  shows "\<exists>r. walk d mem sp bp st = Some r"
proof (induction "unat (u - sp)" arbitrary: sp bp st rule: less_induct)
  case less
  show ?case
  proof (cases "walkFrame d mem sp bp st")
    case (Done s)
    then show ?thesis by (subst walk.simps) simp
  next
    case (Panic e)
    then show ?thesis by (subst walk.simps) simp
  next
    case (Next sp' bp' st')
    from walkFrame_Next [OF Next] obtain fs bs where fs: "sp' = sp + fs" "fs \<noteq> 0"
      "PtracePeekData mem sp (unat fs) = Some bs"
      by blast
    from step_measure [of mem u sp fs bs] assms fs
    have "unat (u - sp') < unat (u - sp)" by simp
    from less [OF this] obtain r where "walk d mem sp' bp' st' = Some r" by blast
    with Next show ?thesis by (subst walk.simps) simp
  qed
qed

declare frameEnd.simps [simp del]

lemma peek_zero: "PtracePeekData zeroMemory a n = Some (replicate n 0)"
  by (induction n arbitrary: a) (simp_all add: zeroMemory_def)

lemma le64_zero: "le64 (replicate n 0) = 0"
  by (induction n) simp_all

lemma slice_zero:
  "hi \<le> n \<Longrightarrow> slice (replicate n 0) lo hi = Inr (replicate (min (hi - lo) (n - lo)) 0)"
  by (simp add: slice_def)

lemma dvd8_unat:
  fixes w :: addr
  assumes "8 dvd w"
  shows "8 dvd unat w"
proof -
  from assms obtain k where "w = 8 * k" by (auto simp: dvd_def)
  then have "unat w = (8 * unat k) mod 2 ^ 64"
    by (simp add: unat_word_ariths)
  moreover have "(8::nat) dvd 2 ^ 64" by simp
  ultimately show ?thesis by (simp add: dvd_mod)
qed

lemma frameEnd_zero:
  "8 dvd n \<Longrightarrow> 8 dvd off \<Longrightarrow> off < n \<Longrightarrow> frameEnd (replicate n 0) n off = Inr (Some 0)"
proof (induction "n - off" arbitrary: off rule: less_induct)
  case less
  from less.prems obtain a b where ab: "n = 8 * a" "off = 8 * b" by (auto simp: dvd_def)
  with less.prems(3) have le: "off + 8 \<le> n" by simp
  show ?case
  proof (cases "off = n - 8")
    case True
    with le less.prems(3) show ?thesis
      by (subst frameEnd.simps) (simp add: ptrSize_def slice_zero le64_zero)
  next
    case False
    with le have lt: "off + 8 < n" by simp
    have "frameEnd (replicate n 0) n (off + 8) = Inr (Some 0)"
      using less.prems(1,2) lt by (intro less.hyps) simp_all
    with False le less.prems(3) show ?thesis
      by (subst frameEnd.simps) (simp add: ptrSize_def slice_zero)
  qed
qed

lemma loopIndex_facts:
  "PCToFunc loopIndex 0 = Some (0, 0)"
  "funcAt loopIndex (0, 0) = Some (exFunc ''f'' 1 0 0x100)"
  "fn_name (exFunc ''f'' 1 0 0x100) \<noteq> MAIN_FN"
  by (simp_all add: loopIndex_def exIndex_def exModule_def exFunc_def PCToFunc_def funcAt_def
      MAIN_FN_def)

lemma walkFrame_zero:
  assumes sp: "8 dvd sp" and bp: "8 dvd bp"
  shows "\<exists>sp'. walkFrame loopIndex zeroMemory sp bp st = Next sp' 0 (st @ [Some (0, 0)]) \<and> 8 dvd sp'"
proof -
  define fs :: addr where "fs = (if 1024 < bp - sp + 8 \<or> bp - sp + 8 \<le> 8 then 32 else bp - sp + 8)"
  have "(32::addr) = 8 * 4" "(8::addr) = 8 * 1" by simp_all
  then have c: "(8::addr) dvd 32" "(8::addr) dvd 8" by (metis dvd_triv_left)+
  from sp bp c(2) have "8 dvd bp - sp + 8" by (intro dvd_add dvd_diff)
  with c(1) have al: "8 dvd fs" by (simp add: fs_def)
  have gt: "8 < fs" by (auto simp: fs_def)
  then have "8 < unat fs" by (simp add: word_less_nat_alt)
  with dvd8_unat [OF al] have n: "16 \<le> unat fs" "8 dvd unat fs"
    by (auto simp: dvd_def)
  from n have fe: "frameEnd (replicate (unat fs) 0) (unat fs) 0 = Inr (Some 0)"
    by (intro frameEnd_zero) simp_all
  have "walkFrame loopIndex zeroMemory sp bp st = Next (sp + fs) 0 (st @ [Some (0, 0)])"
    unfolding walkFrame_def Let_def fs_def [symmetric]
    using n(1) by (simp add: peek_zero slice_zero ptrSize_def le64_zero loopIndex_facts fe)
  moreover have "8 dvd sp + fs" using sp al by (rule dvd_add)
  ultimately show ?thesis by blast
qed

lemma walk_zero_never:
  assumes "walk d mem sp bp st = Some y"
  shows "\<not> (d = loopIndex \<and> mem = zeroMemory \<and> 8 dvd sp \<and> 8 dvd bp)"
proof (rule walk.raw_induct
    [where P = "\<lambda>d mem sp bp st y. \<not> (d = loopIndex \<and> mem = zeroMemory \<and> 8 dvd sp \<and> 8 dvd bp)",
     OF _ assms])
  fix w :: "dwarfData \<Rightarrow> memory \<Rightarrow> addr \<Rightarrow> addr \<Rightarrow> functionStack \<Rightarrow> (error + functionStack) option"
  fix d mem sp bp st y
  assume ih: "\<And>d mem sp bp st y. w d mem sp bp st = Some y \<Longrightarrow>
      \<not> (d = loopIndex \<and> mem = zeroMemory \<and> 8 dvd sp \<and> 8 dvd bp)"
    and body: "(case walkFrame d mem sp bp st of
        Done s \<Rightarrow> Some (Inr s) | Panic e \<Rightarrow> Some (Inl e) | Next sp bp s \<Rightarrow> w d mem sp bp s) = Some y"
  show "\<not> (d = loopIndex \<and> mem = zeroMemory \<and> 8 dvd sp \<and> 8 dvd bp)"
  proof
    assume inv: "d = loopIndex \<and> mem = zeroMemory \<and> 8 dvd sp \<and> 8 dvd bp"
    then obtain sp' where nx: "walkFrame d mem sp bp st = Next sp' 0 (st @ [Some (0, 0)])"
      and al: "8 dvd sp'"
      using walkFrame_zero [of sp bp st] by blast
    with body have "w d mem sp' 0 (st @ [Some (0, 0)]) = Some y" by simp
    from ih [OF this] have "\<not> (d = loopIndex \<and> mem = zeroMemory \<and> 8 dvd sp' \<and> (8::addr) dvd 0)" .
    with inv al show False by simp
  qed
qed

lemma getStack_zero_diverges: "getStack loopIndex loopRegs zeroMemory = None"
proof (cases "getStack loopIndex loopRegs zeroMemory")
  case None
  then show ?thesis .
next
  case (Some y)
  then have "walk loopIndex zeroMemory 0 8 [PCToFunc loopIndex 0x10] = Some y"
    by (simp add: getStack_def loopRegs_def)
  from walk_zero_never [OF this] show ?thesis by simp
qed

lemma mainIndex_frames:
  "PCToFunc mainIndex 0x1008 = Some (0, 0)"
  "walkFrame mainIndex stackPage 0x7ffc0000 0x7ffc0008 [Some (0, 0)]
     = Done [Some (0, 0), Some (0, 1)]"
  "walkFrame mainIndex stackPage 0x7ffc0000 0x7ffc0004 [Some (0, 0)] = Panic SliceOutOfRange"
  by code_simp+




end
